theory Spec2Isabelle
  imports Main "HOL-Library.Multiset"
begin

section \<open>Data model\<close>

text \<open>
  The Go package \<^verbatim>\<open>commands\<close> (type \<^verbatim>\<open>GitCommand\<close>) is embedded function by function.
  Go strings are byte strings, here \<^typ>\<open>string\<close>; a slice of pointers is a list of the
  records pointed to.

  A Go function ends in one of three ways: it returns normally, it returns an
  \<^verbatim>\<open>error\<close> value, or the run time panics (a slice or index expression out of range).
  The last two are kept apart: \<open>Error\<close> is a value the caller receives, \<open>Panic\<close> is a crash.
\<close>

datatype error =
    SLocalize string   \<comment> \<open>\<^verbatim>\<open>errors.New(c.Tr.SLocalize(key))\<close>, named by its key\<close>
  | New string         \<comment> \<open>\<^verbatim>\<open>errors.New(text)\<close>\<close>
  | ExitError string   \<comment> \<open>the error an external command came back with\<close>

datatype panic = SliceBoundsOutOfRange | IndexOutOfRange

datatype failure = Error error | Panic panic

text \<open>The fields of \<^verbatim>\<open>File\<close> and \<^verbatim>\<open>Commit\<close> that the functions below read or write.\<close>

record Commit =
  Sha :: string
  Name :: string

record File =
  Name :: string
  HasStagedChanges :: bool
  HasUnstagedChanges :: bool
  Tracked :: bool
  Deleted :: bool
  HasMergeConflicts :: bool
  HasInlineMergeConflicts :: bool
  DisplayString :: string
  Type :: string
  ShortStatus :: string

section \<open>The operating-system layer\<close>

text \<open>
  \<^verbatim>\<open>OSCommand\<close> is not part of the sources at hand; what \<^verbatim>\<open>GitCommand\<close> uses of it is taken
  as a parameter. A \<open>call\<close> is one request that leaves the process: a command line run to
  completion (\<^verbatim>\<open>RunCommand\<close>), a command line run with the editor skipped
  (\<^verbatim>\<open>RunSkipEditorCommand\<close>, defined in \<^verbatim>\<open>GitCommand\<close>), a prepared command with its extra
  environment (\<^verbatim>\<open>RunPreparedCommand\<close>), or the removal of a path (\<^verbatim>\<open>Remove\<close>).
  \<open>respond\<close> gives the outcome of a call after the calls made so far: \<open>None\<close> when it
  succeeds (Go's \<^verbatim>\<open>nil\<close> error), or the message of the error it comes back with.
\<close>

record Cmd =
  Args :: string          \<comment> \<open>the command line handed to \<^verbatim>\<open>str.ToArgv\<close>\<close>
  Env :: "string list"    \<comment> \<open>what is appended to \<^verbatim>\<open>os.Environ()\<close>\<close>

datatype call =
    RunCommand string
  | RunSkipEditorCommand string
  | RunPreparedCommand Cmd
  | Remove string

record OSCommand =
  respond :: "call list \<Rightarrow> call \<Rightarrow> string option"
  Quote :: "string \<Rightarrow> string"
  Unquote :: "string \<Rightarrow> string"
  FileType :: "string \<Rightarrow> string"
  GetLazygitPath :: string
  GetDebug :: bool

section \<open>StatusParser: \<^verbatim>\<open>GetStatusFiles\<close>\<close>

text \<open>Go's slice expressions \<^verbatim>\<open>s[lo:hi]\<close> and \<^verbatim>\<open>s[lo:]\<close> on a string; out of range they panic.\<close>

definition slice :: "string \<Rightarrow> nat \<Rightarrow> nat \<Rightarrow> failure + string" where
  "slice s lo hi =
     (if lo \<le> hi \<and> hi \<le> length s then Inr (take (hi - lo) (drop lo s))
      else Inl (Panic SliceBoundsOutOfRange))"

definition sliceFrom :: "string \<Rightarrow> nat \<Rightarrow> failure + string" where
  "sliceFrom s lo =
     (if lo \<le> length s then Inr (drop lo s) else Inl (Panic SliceBoundsOutOfRange))"

text \<open>
  The body of the loop of \<^verbatim>\<open>GetStatusFiles\<close>, one status line to one \<^verbatim>\<open>File\<close>. The two map
  literals are looked up as the code does (\<^verbatim>\<open>_, ok := m[key]\<close>).
\<close>

definition statusStringFile :: "OSCommand \<Rightarrow> string \<Rightarrow> failure + File" where
  "statusStringFile os statusString =
     (case slice statusString 0 2 of Inl p \<Rightarrow> Inl p | Inr change \<Rightarrow>
      case slice change 0 1 of Inl p \<Rightarrow> Inl p | Inr stagedChange \<Rightarrow>
      case slice statusString 1 2 of Inl p \<Rightarrow> Inl p | Inr unstagedChange \<Rightarrow>
      case sliceFrom statusString 3 of Inl p \<Rightarrow> Inl p | Inr rest \<Rightarrow>
        let filename = Unquote os rest;
            untracked = (map_of [(''??'', True), (''A '', True), (''AM'', True)] change \<noteq> None);
            hasNoStagedChanges =
              (map_of [('' '', True), (''U'', True), (''?'', True)] stagedChange \<noteq> None);
            hasMergeConflicts = (change = ''UU'' \<or> change = ''AA'' \<or> change = ''DU'');
            hasInlineMergeConflicts = (change = ''UU'' \<or> change = ''AA'')
        in Inr \<lparr> Name = filename,
                 HasStagedChanges = \<not> hasNoStagedChanges,
                 HasUnstagedChanges = (unstagedChange \<noteq> '' ''),
                 Tracked = \<not> untracked,
                 Deleted = (unstagedChange = ''D'' \<or> stagedChange = ''D''),
                 HasMergeConflicts = hasMergeConflicts,
                 HasInlineMergeConflicts = hasInlineMergeConflicts,
                 DisplayString = statusString,
                 Type = FileType os filename,
                 ShortStatus = change \<rparr>)"

text \<open>
  The loop \<^verbatim>\<open>for _, statusString := range statusStrings\<close>, with \<^verbatim>\<open>files\<close> as accumulator.
  \<open>statusStrings\<close> is \<^verbatim>\<open>utils.SplitLines\<close> of the output of \<^verbatim>\<open>git status --porcelain\<close>.
  The function has no \<^verbatim>\<open>error\<close> result and writes no field of \<^verbatim>\<open>GitCommand\<close>.
\<close>

fun GetStatusFiles_loop :: "OSCommand \<Rightarrow> string list \<Rightarrow> File list \<Rightarrow> failure + File list" where
  "GetStatusFiles_loop os [] files = Inr files"
| "GetStatusFiles_loop os (statusString # statusStrings) files =
     (case statusStringFile os statusString of
        Inl p \<Rightarrow> Inl p
      | Inr file \<Rightarrow> GetStatusFiles_loop os statusStrings (files @ [file]))"

definition GetStatusFiles :: "OSCommand \<Rightarrow> string list \<Rightarrow> failure + File list" where
  "GetStatusFiles os statusStrings = GetStatusFiles_loop os statusStrings []"

section \<open>ChangeSetMerger: \<^verbatim>\<open>MergeStatusFiles\<close>\<close>

text \<open>\<^verbatim>\<open>includesInt\<close>; the list holds indexes of a \<^verbatim>\<open>range\<close> loop, which are never negative.\<close>

fun includesInt :: "nat list \<Rightarrow> nat \<Rightarrow> bool" where
  "includesInt [] a = False"
| "includesInt (b # list) a = (if b = a then True else includesInt list a)"

text \<open>
  The inner loop \<^verbatim>\<open>for newIndex, newFile := range newFiles\<close> for one \<^verbatim>\<open>oldFile\<close>: the first
  entry of the same name is appended, its index recorded, and the loop left (\<^verbatim>\<open>break\<close>).
  The state is the pair \<open>(result, appendedIndexes)\<close>.
\<close>

fun MergeStatusFiles_inner ::
  "File \<Rightarrow> File list \<Rightarrow> nat \<Rightarrow> File list \<times> nat list \<Rightarrow> File list \<times> nat list" where
  "MergeStatusFiles_inner oldFile [] newIndex (result, appendedIndexes) = (result, appendedIndexes)"
| "MergeStatusFiles_inner oldFile (newFile # newFiles) newIndex (result, appendedIndexes) =
     (if File.Name oldFile = File.Name newFile
      then (result @ [newFile], appendedIndexes @ [newIndex])
      else MergeStatusFiles_inner oldFile newFiles (Suc newIndex) (result, appendedIndexes))"

text \<open>The outer loop \<^verbatim>\<open>for _, oldFile := range oldFiles\<close>.\<close>

fun MergeStatusFiles_outer ::
  "File list \<Rightarrow> File list \<Rightarrow> File list \<times> nat list \<Rightarrow> File list \<times> nat list" where
  "MergeStatusFiles_outer [] newFiles acc = acc"
| "MergeStatusFiles_outer (oldFile # oldFiles) newFiles acc =
     MergeStatusFiles_outer oldFiles newFiles (MergeStatusFiles_inner oldFile newFiles 0 acc)"

text \<open>The last loop: every new file whose index was not recorded is appended.\<close>

fun MergeStatusFiles_append ::
  "nat list \<Rightarrow> File list \<Rightarrow> nat \<Rightarrow> File list \<Rightarrow> File list" where
  "MergeStatusFiles_append appendedIndexes [] idx result = result"
| "MergeStatusFiles_append appendedIndexes (newFile # newFiles) idx result =
     MergeStatusFiles_append appendedIndexes newFiles (Suc idx)
       (if \<not> includesInt appendedIndexes idx then result @ [newFile] else result)"

definition MergeStatusFiles :: "File list \<Rightarrow> File list \<Rightarrow> File list" where
  "MergeStatusFiles oldFiles newFiles =
     (if length oldFiles = 0 then newFiles
      else case MergeStatusFiles_outer oldFiles newFiles ([], []) of
             (result, appendedIndexes) \<Rightarrow>
               MergeStatusFiles_append appendedIndexes newFiles 0 result)"

text \<open>Go's composite literal \<^verbatim>\<open>&File{Name: name}\<close>, every other field at its zero value.\<close>

definition File_named :: "string \<Rightarrow> File" where
  "File_named name =
     \<lparr> Name = name, HasStagedChanges = False, HasUnstagedChanges = False, Tracked = False,
       Deleted = False, HasMergeConflicts = False, HasInlineMergeConflicts = False,
       DisplayString = [], Type = [], ShortStatus = [] \<rparr>"

section \<open>The state of \<^verbatim>\<open>GitCommand\<close>\<close>

text \<open>
  Of the fields of \<^verbatim>\<open>GitCommand\<close> the functions below use the two configuration readers
  (their \<^verbatim>\<open>error\<close> result is dropped by the only reader, \<^verbatim>\<open>usingGpg\<close>) and
  \<^verbatim>\<open>onSuccessfulContinue\<close>, a Go closure or \<^verbatim>\<open>nil\<close>. A closure is named by a value of
  type \<open>'k\<close>; running it is the parameter \<open>invoke\<close> of the functions that may call it.
  \<open>calls\<close> is the history of the calls made through \<^verbatim>\<open>OSCommand\<close>, oldest first.
\<close>

record 'k GitCommand =
  calls :: "call list"
  getGlobalGitConfig :: "string \<Rightarrow> string"
  getLocalGitConfig :: "string \<Rightarrow> string"
  onSuccessfulContinue :: "'k option"

type_synonym 'k continuation = "'k \<Rightarrow> 'k GitCommand \<Rightarrow> failure option \<times> 'k GitCommand"

text \<open>One call through \<^verbatim>\<open>OSCommand\<close>: its outcome, and the history one longer.\<close>

definition perform :: "OSCommand \<Rightarrow> call \<Rightarrow> 'k GitCommand \<Rightarrow> error option \<times> 'k GitCommand" where
  "perform os cl c =
     (map_option ExitError (respond os (calls c) cl), c\<lparr>calls := calls c @ [cl]\<rparr>)"

text \<open>Go's 64-bit \<^verbatim>\<open>int\<close>: addition wraps around.\<close>

definition add64 :: "int \<Rightarrow> int \<Rightarrow> int" where
  "add64 a b = (a + b + 2 ^ 63) mod 2 ^ 64 - 2 ^ 63"

text \<open>Go's \<^verbatim>\<open>xs[0:hi]\<close> and \<^verbatim>\<open>xs[i]\<close> on a slice whose capacity is its length.\<close>

definition sliceTo :: "'a list \<Rightarrow> int \<Rightarrow> failure + 'a list" where
  "sliceTo xs hi =
     (if 0 \<le> hi \<and> hi \<le> int (length xs) then Inr (take (nat hi) xs)
      else Inl (Panic SliceBoundsOutOfRange))"

definition index :: "'a list \<Rightarrow> int \<Rightarrow> failure + 'a" where
  "index xs i =
     (if 0 \<le> i \<and> i < int (length xs) then Inr (xs ! nat i) else Inl (Panic IndexOutOfRange))"

text \<open>
  \<^verbatim>\<open>strings.ToLower\<close> on the ASCII letters; \<^verbatim>\<open>usingGpg\<close> compares the result with four ASCII
  words, none of which is the lower case of a string with a character outside ASCII.
\<close>

definition ToLower :: "string \<Rightarrow> string" where
  "ToLower s =
     map (\<lambda>ch. case map_of (zip ''ABCDEFGHIJKLMNOPQRSTUVWXYZ'' ''abcdefghijklmnopqrstuvwxyz'') ch of
                 None \<Rightarrow> ch | Some l \<Rightarrow> l) s"

definition usingGpg :: "'k GitCommand \<Rightarrow> bool" where
  "usingGpg c =
     (let gpgsign = getLocalGitConfig c ''commit.gpgsign'';
          gpgsign = (if gpgsign = [] then getGlobalGitConfig c ''commit.gpgsign'' else gpgsign);
          v = ToLower gpgsign
      in v = ''true'' \<or> v = ''1'' \<or> v = ''yes'' \<or> v = ''on'')"

section \<open>RewriteDriver: \<^verbatim>\<open>GenericMerge\<close> and the prepared rebase command\<close>

definition RunSkipEditorCommand ::
  "OSCommand \<Rightarrow> string \<Rightarrow> 'k GitCommand \<Rightarrow> error option \<times> 'k GitCommand" where
  "RunSkipEditorCommand os command c = perform os (call.RunSkipEditorCommand command) c"

definition GenericMerge ::
  "'k continuation \<Rightarrow> OSCommand \<Rightarrow> string \<Rightarrow> string \<Rightarrow> 'k GitCommand
     \<Rightarrow> failure option \<times> 'k GitCommand" where
  "GenericMerge invoke os commandType command c =
     (case RunSkipEditorCommand os (''git '' @ commandType @ '' --'' @ command) c of
        (Some err, c1) \<Rightarrow> (Some (Error err), c1)
      | (None, c1) \<Rightarrow>
          (case (if commandType = ''rebase'' \<and> command = ''continue''
                 then onSuccessfulContinue c1 else None) of
             Some f \<Rightarrow> invoke f (c1\<lparr>onSuccessfulContinue := None\<rparr>)
           | None \<Rightarrow>
               if command = ''abort'' then (None, c1\<lparr>onSuccessfulContinue := None\<rparr>)
               else (None, c1)))"

text \<open>
  A session: \<^verbatim>\<open>GenericMerge\<close> called once per request \<open>(commandType, command)\<close>, whatever
  the earlier calls returned. The result lists what each call returned.
\<close>

fun GenericMerge_session ::
  "'k continuation \<Rightarrow> OSCommand \<Rightarrow> (string \<times> string) list \<Rightarrow> 'k GitCommand
     \<Rightarrow> failure option list \<times> 'k GitCommand" where
  "GenericMerge_session invoke os [] c = ([], c)"
| "GenericMerge_session invoke os ((commandType, command) # requests) c =
     (case GenericMerge invoke os commandType command c of
        (r, c1) \<Rightarrow>
          (case GenericMerge_session invoke os requests c1 of (rs, c2) \<Rightarrow> (r # rs, c2)))"

definition PrepareInteractiveRebaseCommand :: "OSCommand \<Rightarrow> string \<Rightarrow> string \<Rightarrow> bool \<Rightarrow> Cmd" where
  "PrepareInteractiveRebaseCommand os baseSha todo overrideEditor =
     (let ex = GetLazygitPath os;
          debug = (if GetDebug os then ''TRUE'' else ''FALSE'');
          gitSequenceEditor = (if todo = [] then ''true'' else ex)
      in \<lparr> Args = ''git rebase --interactive --autostash --keep-empty --rebase-merges '' @ baseSha,
           Env = [''LAZYGIT_CLIENT_COMMAND=INTERACTIVE_REBASE'',
                  ''LAZYGIT_REBASE_TODO='' @ todo,
                  ''DEBUG='' @ debug,
                  ''LANG=en_US.UTF-8'',
                  ''LC_ALL=en_US.UTF-8'',
                  ''GIT_SEQUENCE_EDITOR='' @ gitSequenceEditor]
                 @ (if overrideEditor then [''EDITOR='' @ ex] else []) \<rparr>)"

section \<open>RewritePlanBuilder: \<^verbatim>\<open>GenerateGenericRebaseTodo\<close> and \<^verbatim>\<open>MoveCommitDown\<close>\<close>

text \<open>
  The todo is a string, one line per commit; every loop step puts its line in front of
  the lines made so far. The result pair is \<open>(todo, sha)\<close>.
\<close>

definition GenerateGenericRebaseTodo ::
  "Commit list \<Rightarrow> int \<Rightarrow> string \<Rightarrow> failure + string \<times> string" where
  "GenerateGenericRebaseTodo commits actionIndex action =
     (let baseIndex = add64 actionIndex 1 in
      if int (length commits) \<le> baseIndex
      then Inl (Error (SLocalize ''CannotRebaseOntoFirstCommit''))
      else
        let baseIndex = (if action = ''squash'' \<or> action = ''fixup''
                         then add64 baseIndex 1 else baseIndex) in
        if (action = ''squash'' \<or> action = ''fixup'') \<and> int (length commits) \<le> baseIndex
        then Inl (Error (SLocalize ''CannotSquashOntoSecondCommit''))
        else
          case sliceTo commits baseIndex of Inl p \<Rightarrow> Inl p | Inr picked \<Rightarrow>
            let todo = foldl (\<lambda>todo (i, commit).
                          (if int i = actionIndex then action else ''pick'')
                            @ '' '' @ Sha commit @ '' '' @ Commit.Name commit @ ''\<newline>'' @ todo)
                        [] (enumerate 0 picked)
            in case index commits baseIndex of Inl p \<Rightarrow> Inl p
               | Inr base \<Rightarrow> Inr (todo, Sha base))"

text \<open>
  \<^verbatim>\<open>append(commits[0:index], commits[index+1], commits[index])\<close> has room in the array of
  \<^verbatim>\<open>commits\<close> (its length is more than \<open>index + 2\<close> here), so Go writes the two commits
  into that array: the caller's \<^verbatim>\<open>commits\<close> has them swapped afterwards, and
  \<^verbatim>\<open>commits[index+2]\<close> is read from the array so changed. The function gives back that
  array with the error and the state.
\<close>

definition MoveCommitDown ::
  "OSCommand \<Rightarrow> Commit list \<Rightarrow> int \<Rightarrow> 'k GitCommand
     \<Rightarrow> failure option \<times> Commit list \<times> 'k GitCommand" where
  "MoveCommitDown os commits idx c =
     (if int (length commits) \<le> add64 idx 2
      then (Some (Error (SLocalize ''NoRoom'')), commits, c)
      else
        case sliceTo commits idx of Inl p \<Rightarrow> (Some p, commits, c) | Inr upper \<Rightarrow>
        case index commits (add64 idx 1) of Inl p \<Rightarrow> (Some p, commits, c) | Inr below \<Rightarrow>
        case index commits idx of Inl p \<Rightarrow> (Some p, commits, c) | Inr selected \<Rightarrow>
          let commits' = commits[nat idx := below, Suc (nat idx) := selected];
              orderedCommits = upper @ [below, selected];
              todo = foldl (\<lambda>todo commit.
                        ''pick '' @ Sha commit @ '' '' @ Commit.Name commit @ ''\<newline>'' @ todo)
                      [] orderedCommits
          in case index commits' (add64 idx 2) of Inl p \<Rightarrow> (Some p, commits', c)
             | Inr base \<Rightarrow>
                 (case perform os
                         (RunPreparedCommand (PrepareInteractiveRebaseCommand os (Sha base) todo True)) c of
                    (Some err, c1) \<Rightarrow> (Some (Error err), commits', c1)
                  | (None, c1) \<Rightarrow> (None, commits', c1)))"

section \<open>FileOpOrchestrator: \<^verbatim>\<open>DiscardOldFileChanges\<close>\<close>

definition BeginInteractiveRebaseForCommit ::
  "OSCommand \<Rightarrow> Commit list \<Rightarrow> int \<Rightarrow> 'k GitCommand \<Rightarrow> failure option \<times> 'k GitCommand" where
  "BeginInteractiveRebaseForCommit os commits commitIndex c =
     (if int (length commits) - 1 < commitIndex
      then (Some (Error (New ''index outside of range of commits'')), c)
      else if usingGpg c
      then (Some (Error (SLocalize ''DisabledForGPG'')), c)
      else
        case GenerateGenericRebaseTodo commits commitIndex ''edit'' of
          Inl err \<Rightarrow> (Some err, c)
        | Inr (todo, sha) \<Rightarrow>
            (case perform os
                    (RunPreparedCommand (PrepareInteractiveRebaseCommand os sha todo True)) c of
               (Some err, c1) \<Rightarrow> (Some (Error err), c1)
             | (None, c1) \<Rightarrow> (None, c1)))"

definition StageFile :: "OSCommand \<Rightarrow> string \<Rightarrow> 'k GitCommand \<Rightarrow> error option \<times> 'k GitCommand" where
  "StageFile os fileName c = perform os (RunCommand (''git add '' @ Quote os fileName)) c"

definition CheckoutFile ::
  "OSCommand \<Rightarrow> string \<Rightarrow> string \<Rightarrow> 'k GitCommand \<Rightarrow> error option \<times> 'k GitCommand" where
  "CheckoutFile os commitSha fileName c =
     perform os (RunCommand (''git checkout '' @ commitSha @ '' '' @ fileName)) c"

text \<open>
  \<^verbatim>\<open>AmendHead\<close> returns a prepared command and no error when commits are signed, and
  otherwise no command and the outcome of running \<^verbatim>\<open>git commit --amend\<close>. Of the prepared
  command the callers test the pointer alone; the shell it is wrapped in is left out.
\<close>

definition AmendHead ::
  "OSCommand \<Rightarrow> 'k GitCommand \<Rightarrow> Cmd option \<times> error option \<times> 'k GitCommand" where
  "AmendHead os c =
     (let command = ''git commit --amend --no-edit --allow-empty'' in
      if usingGpg c then (Some \<lparr> Args = command, Env = [] \<rparr>, None, c)
      else case perform os (RunCommand command) c of (err, c1) \<Rightarrow> (None, err, c1))"

text \<open>The end of \<^verbatim>\<open>DiscardOldFileChanges\<close>, from \<^verbatim>\<open>// amend the commit\<close> on.\<close>

definition DiscardOldFileChanges_amend ::
  "'k continuation \<Rightarrow> OSCommand \<Rightarrow> 'k GitCommand \<Rightarrow> failure option \<times> 'k GitCommand" where
  "DiscardOldFileChanges_amend invoke os c =
     (case AmendHead os c of
        (Some cmd, err, c1) \<Rightarrow> (Some (Error (New ''received unexpected pointer to cmd'')), c1)
      | (None, Some err, c1) \<Rightarrow> (Some (Error err), c1)
      | (None, None, c1) \<Rightarrow> GenericMerge invoke os ''rebase'' ''continue'' c1)"

definition DiscardOldFileChanges ::
  "'k continuation \<Rightarrow> OSCommand \<Rightarrow> Commit list \<Rightarrow> int \<Rightarrow> string \<Rightarrow> 'k GitCommand
     \<Rightarrow> failure option \<times> 'k GitCommand" where
  "DiscardOldFileChanges invoke os commits commitIndex fileName c =
     (case BeginInteractiveRebaseForCommit os commits commitIndex c of
        (Some err, c1) \<Rightarrow> (Some err, c1)
      | (None, c1) \<Rightarrow>
          (case perform os (RunCommand (''git cat-file -e HEAD^:'' @ fileName)) c1 of
             (Some absent, c2) \<Rightarrow>
               (case perform os (Remove fileName) c2 of
                  (Some err, c3) \<Rightarrow> (Some (Error err), c3)
                | (None, c3) \<Rightarrow>
                    (case StageFile os fileName c3 of
                       (Some err, c4) \<Rightarrow> (Some (Error err), c4)
                     | (None, c4) \<Rightarrow> DiscardOldFileChanges_amend invoke os c4))
           | (None, c2) \<Rightarrow>
               (case CheckoutFile os ''HEAD^'' fileName c2 of
                  (Some err, c3) \<Rightarrow> (Some (Error err), c3)
                | (None, c3) \<Rightarrow> DiscardOldFileChanges_amend invoke os c3)))"

section \<open>Fixtures\<close>

text \<open>
  The stand-ins of the test suite (\<^verbatim>\<open>NewDummyOSCommand\<close>, \<^verbatim>\<open>NewDummyGitCommand\<close>): every
  call succeeds, quoting changes nothing, unquoting drops the double quotes, every path has
  the type \<open>other\<close>, and no configuration value is set.
\<close>

definition NewDummyOSCommand :: OSCommand where
  "NewDummyOSCommand =
     \<lparr> respond = (\<lambda>history cl. None), Quote = (\<lambda>s. s),
       Unquote = filter (\<lambda>ch. ch \<noteq> CHR 0x22), FileType = (\<lambda>path. ''other''),
       GetLazygitPath = ''lazygit'', GetDebug = False \<rparr>"

definition NewDummyGitCommand :: "nat GitCommand" where
  "NewDummyGitCommand =
     \<lparr> calls = [], getGlobalGitConfig = (\<lambda>key. []), getLocalGitConfig = (\<lambda>key. []),
       onSuccessfulContinue = None \<rparr>"

section \<open>Properties of the status parser\<close>

lemma statusStringFile_short:
  "length l < 3 \<Longrightarrow> statusStringFile os l = Inl (Panic SliceBoundsOutOfRange)"
  by (simp add: statusStringFile_def slice_def sliceFrom_def)

lemma statusStringFile_long:
  assumes "3 \<le> length l"
  shows "\<exists>f. statusStringFile os l = Inr f \<and> DisplayString f = l \<and> ShortStatus f = take 2 l
           \<and> (HasMergeConflicts f \<longleftrightarrow> take 2 l \<in> {''UU'', ''AA'', ''DU''})
           \<and> (HasInlineMergeConflicts f \<longleftrightarrow> take 2 l \<in> {''UU'', ''AA''})"
  using assms by (simp add: statusStringFile_def slice_def sliceFrom_def Let_def)

lemma GetStatusFiles_loop_Inr:
  "GetStatusFiles_loop os ls acc = Inr fs \<longleftrightarrow>
     (\<exists>fs'. fs = acc @ fs' \<and> list_all2 (\<lambda>l f. statusStringFile os l = Inr f) ls fs')"
proof (induction ls arbitrary: acc)
  case Nil
  then show ?case by auto
next
  case (Cons l ls)
  show ?case
  proof (cases "statusStringFile os l")
    case (Inl p)
    then show ?thesis by (auto simp: list_all2_Cons1)
  next
    case (Inr f)
    then show ?thesis by (auto simp: Cons.IH list_all2_Cons1)
  qed
qed

lemma GetStatusFiles_loop_Inl:
  "GetStatusFiles_loop os ls acc = Inl p \<Longrightarrow> \<exists>l \<in> set ls. statusStringFile os l = Inl p"
proof (induction ls arbitrary: acc)
  case Nil
  then show ?case by simp
next
  case (Cons l ls)
  then show ?case by (cases "statusStringFile os l") auto
qed

lemma GetStatusFiles_Inr_nth:
  assumes "GetStatusFiles os ls = Inr fs"
  shows "length fs = length ls \<and> (\<forall>i < length ls. statusStringFile os (ls ! i) = Inr (fs ! i))"
  using assms
  by (auto simp: GetStatusFiles_def GetStatusFiles_loop_Inr list_all2_conv_all_nth)

lemma GetStatusFiles_Inr_long:
  assumes "GetStatusFiles os ls = Inr fs" and "l \<in> set ls"
  shows "3 \<le> length l"
proof (rule ccontr)
  assume "\<not> 3 \<le> length l"
  then have short: "statusStringFile os l = Inl (Panic SliceBoundsOutOfRange)"
    by (simp add: statusStringFile_short)
  from assms(2) obtain i where i: "i < length ls" "ls ! i = l"
    by (auto simp: in_set_conv_nth)
  with GetStatusFiles_Inr_nth [OF assms(1)] have "statusStringFile os l = Inr (fs ! i)"
    by auto
  with short show False by simp
qed

text \<open>
  Claim C2, as the code has it. \<^verbatim>\<open>GetStatusFiles\<close> returns a value and changes no state.
  When every line has at least 3 characters it returns one \<^verbatim>\<open>File\<close> per line, in order,
  the line kept in \<open>DisplayString\<close>. When some line is shorter than 3 characters the slice
  expressions panic: the run-time error is the only failure there is, and no
  \<^verbatim>\<open>error\<close> value is ever returned.
\<close>

theorem GetStatusFiles_fails_only_by_panic:
  "((\<forall>l \<in> set ls. 3 \<le> length l) \<longrightarrow>
      (\<exists>fs. GetStatusFiles os ls = Inr fs \<and> length fs = length ls
            \<and> (\<forall>i < length ls. DisplayString (fs ! i) = ls ! i)))
   \<and> ((\<exists>l \<in> set ls. length l < 3) \<longrightarrow> GetStatusFiles os ls = Inl (Panic SliceBoundsOutOfRange))
   \<and> (\<forall>e. GetStatusFiles os ls \<noteq> Inl (Error e))"
proof (intro conjI impI allI)
  assume long: "\<forall>l \<in> set ls. 3 \<le> length l"
  define fs where "fs = map (\<lambda>l. projr (statusStringFile os l)) ls"
  have each: "statusStringFile os l = Inr (projr (statusStringFile os l))
                \<and> DisplayString (projr (statusStringFile os l)) = l" if "l \<in> set ls" for l
    using statusStringFile_long [of l os] long that by auto
  have "list_all2 (\<lambda>l f. statusStringFile os l = Inr f) ls fs"
    using each by (simp add: fs_def list_all2_conv_all_nth)
  then have "GetStatusFiles os ls = Inr fs"
    by (simp add: GetStatusFiles_def GetStatusFiles_loop_Inr)
  moreover have "length fs = length ls"
    by (simp add: fs_def)
  moreover have "\<forall>i < length ls. DisplayString (fs ! i) = ls ! i"
    using each by (simp add: fs_def)
  ultimately show "\<exists>fs. GetStatusFiles os ls = Inr fs \<and> length fs = length ls
                     \<and> (\<forall>i < length ls. DisplayString (fs ! i) = ls ! i)"
    by blast
next
  assume "\<exists>l \<in> set ls. length l < 3"
  then obtain l where l: "l \<in> set ls" "length l < 3"
    by blast
  show "GetStatusFiles os ls = Inl (Panic SliceBoundsOutOfRange)"
  proof (cases "GetStatusFiles os ls")
    case (Inl p)
    then obtain l' where "l' \<in> set ls" "statusStringFile os l' = Inl p"
      using GetStatusFiles_loop_Inl [of os ls "[]" p] by (auto simp: GetStatusFiles_def)
    then have "p = Panic SliceBoundsOutOfRange"
      using statusStringFile_long [of l' os] statusStringFile_short [of l' os]
      by (cases "3 \<le> length l'") auto
    with Inl show ?thesis by simp
  next
    case (Inr fs)
    from GetStatusFiles_Inr_long [OF Inr l(1)] l(2) show ?thesis by simp
  qed
next
  fix e
  show "GetStatusFiles os ls \<noteq> Inl (Error e)"
  proof
    assume "GetStatusFiles os ls = Inl (Error e)"
    then obtain l' where "statusStringFile os l' = Inl (Error e)"
      using GetStatusFiles_loop_Inl [of os ls "[]" "Error e"] by (auto simp: GetStatusFiles_def)
    then show False
      using statusStringFile_long [of l' os] statusStringFile_short [of l' os]
      by (cases "3 \<le> length l'") auto
  qed
qed

theorem GetStatusFiles_fails_only_by_panic_witness:
  "(\<exists>fs. GetStatusFiles NewDummyOSCommand [''MM file1.txt'', ''A  file3.txt'', ''?? ''] = Inr fs
         \<and> length fs = 3 \<and> DisplayString (fs ! 1) = ''A  file3.txt'')
   \<and> GetStatusFiles NewDummyOSCommand [''MM file1.txt'', ''A ''] = Inl (Panic SliceBoundsOutOfRange)"
  using GetStatusFiles_fails_only_by_panic
          [of "[''MM file1.txt'', ''A  file3.txt'', ''?? '']" NewDummyOSCommand]
        GetStatusFiles_fails_only_by_panic [of "[''MM file1.txt'', ''A '']" NewDummyOSCommand]
  by auto

text \<open>
  Against claim C2 as worded: on the one-character line \<open>M\<close> the parser does not return
  an error value; the slice \<^verbatim>\<open>statusString[0:2]\<close> panics.
\<close>

theorem GetStatusFiles_short_line_counterexample:
  "\<not> (\<exists>e. GetStatusFiles NewDummyOSCommand [''M''] = Inl (Error e))
   \<and> GetStatusFiles NewDummyOSCommand [''M''] = Inl (Panic SliceBoundsOutOfRange)"
  by (simp add: GetStatusFiles_def statusStringFile_def slice_def)

text \<open>
  Claim C7. Whenever the parser returns, the file made from line \<open>i\<close> carries the first
  two characters of the line as its code; it has merge conflicts exactly for the codes
  \<open>UU\<close>, \<open>AA\<close> and \<open>DU\<close>, inline merge conflicts exactly for \<open>UU\<close> and \<open>AA\<close> (so not for
  \<open>DU\<close>), and inline merge conflicts only together with merge conflicts.
\<close>

theorem GetStatusFiles_merge_conflict_flags:
  assumes "GetStatusFiles os ls = Inr fs" and "i < length ls"
  shows "ShortStatus (fs ! i) = take 2 (ls ! i)
       \<and> (HasMergeConflicts (fs ! i) \<longleftrightarrow> take 2 (ls ! i) \<in> {''UU'', ''AA'', ''DU''})
       \<and> (HasInlineMergeConflicts (fs ! i) \<longleftrightarrow> take 2 (ls ! i) \<in> {''UU'', ''AA''})
       \<and> (take 2 (ls ! i) = ''DU'' \<longrightarrow> \<not> HasInlineMergeConflicts (fs ! i))
       \<and> (HasInlineMergeConflicts (fs ! i) \<longrightarrow> HasMergeConflicts (fs ! i))"
proof -
  have line: "ls ! i \<in> set ls"
    using assms(2) by simp
  have f: "statusStringFile os (ls ! i) = Inr (fs ! i)"
    using GetStatusFiles_Inr_nth [OF assms(1)] assms(2) by blast
  have "3 \<le> length (ls ! i)"
    using GetStatusFiles_Inr_long [OF assms(1) line] .
  from statusStringFile_long [OF this, of os] f show ?thesis
    by auto
qed

theorem GetStatusFiles_merge_conflict_flags_witness:
  "\<exists>fs. GetStatusFiles NewDummyOSCommand [''UU file5.txt'', ''DU gone.txt'', ''MM file1.txt''] = Inr fs
       \<and> HasMergeConflicts (fs ! 0) \<and> HasInlineMergeConflicts (fs ! 0)
       \<and> HasMergeConflicts (fs ! 1) \<and> \<not> HasInlineMergeConflicts (fs ! 1)
       \<and> \<not> HasMergeConflicts (fs ! 2) \<and> \<not> HasInlineMergeConflicts (fs ! 2)"
proof -
  let ?ls = "[''UU file5.txt'', ''DU gone.txt'', ''MM file1.txt'']"
  have "\<exists>fs. GetStatusFiles NewDummyOSCommand ?ls = Inr fs"
    by (simp add: GetStatusFiles_def statusStringFile_def slice_def sliceFrom_def Let_def)
  then obtain fs where run: "GetStatusFiles NewDummyOSCommand ?ls = Inr fs"
    by blast
  from GetStatusFiles_merge_conflict_flags [OF run, of 0]
       GetStatusFiles_merge_conflict_flags [OF run, of 1]
       GetStatusFiles_merge_conflict_flags [OF run, of 2]
  have "HasMergeConflicts (fs ! 0) \<and> HasInlineMergeConflicts (fs ! 0)
       \<and> HasMergeConflicts (fs ! 1) \<and> \<not> HasInlineMergeConflicts (fs ! 1)
       \<and> \<not> HasMergeConflicts (fs ! 2) \<and> \<not> HasInlineMergeConflicts (fs ! 2)"
    by simp
  with run show ?thesis by blast
qed

section \<open>Properties of the change-set merger\<close>

lemma includesInt_set: "includesInt xs a \<longleftrightarrow> a \<in> set xs"
  by (induction xs) auto

lemma MergeStatusFiles_inner_eq:
  "MergeStatusFiles_inner oldFile ns k (r, a) =
     (let j = length (takeWhile (\<lambda>n. File.Name n \<noteq> File.Name oldFile) ns)
      in if j < length ns then (r @ [ns ! j], a @ [k + j]) else (r, a))"
  by (induction ns arbitrary: k) (auto simp: Let_def)

lemma MergeStatusFiles_outer_eq:
  "MergeStatusFiles_outer olds ns (r, a) =
     (let taken = filter (\<lambda>i. i < length ns)
                    (map (\<lambda>oldFile. length (takeWhile (\<lambda>n. File.Name n \<noteq> File.Name oldFile) ns)) olds)
      in (r @ map ((!) ns) taken, a @ taken))"
  by (induction olds arbitrary: r a) (auto simp: Let_def MergeStatusFiles_inner_eq)

lemma MergeStatusFiles_append_eq:
  "MergeStatusFiles_append a ns k r =
     r @ map fst (filter (\<lambda>(n, i). i \<notin> set a) (zip ns [k..<k + length ns]))"
proof (induction ns arbitrary: k r)
  case Nil
  then show ?case by simp
next
  case (Cons n ns)
  have "[k..<k + length (n # ns)] = k # [Suc k..<Suc k + length ns]"
    by (simp add: upt_rec)
  then show ?case
    by (simp add: Cons.IH includesInt_set)
qed

lemma zip_upt_filter:
  "map fst (filter (\<lambda>(n, i). P i) (zip ns [0..<length ns])) = map ((!) ns) (filter P [0..<length ns])"
proof -
  have "zip ns [0..<length ns] = map (\<lambda>i. (ns ! i, i)) [0..<length ns]"
    by (rule nth_equalityI) auto
  then show ?thesis
    by (simp add: filter_map comp_def)
qed

lemma MergeStatusFiles_eq:
  "MergeStatusFiles olds ns =
     (let taken = filter (\<lambda>i. i < length ns)
                    (map (\<lambda>oldFile. length (takeWhile (\<lambda>n. File.Name n \<noteq> File.Name oldFile) ns)) olds)
      in if olds = [] then ns
         else map ((!) ns) (taken @ filter (\<lambda>i. i \<notin> set taken) [0..<length ns]))"
  using zip_upt_filter [of _ ns]
  by (simp add: MergeStatusFiles_def MergeStatusFiles_outer_eq MergeStatusFiles_append_eq Let_def)



lemma first_name:
  assumes "length (takeWhile (\<lambda>n. File.Name n \<noteq> nm) ns) < length ns"
  shows "File.Name (ns ! length (takeWhile (\<lambda>n. File.Name n \<noteq> nm) ns)) = nm"
  using nth_length_takeWhile [OF assms] by simp

lemma taken_distinct:
  assumes "distinct (map File.Name olds)"
  shows "distinct (filter (\<lambda>i. i < length ns)
                    (map (\<lambda>oldFile. length (takeWhile (\<lambda>n. File.Name n \<noteq> File.Name oldFile) ns)) olds))"
  using assms
proof (induction olds)
  case Nil
  then show ?case by simp
next
  case (Cons x olds)
  let ?first = "\<lambda>oldFile. length (takeWhile (\<lambda>n. File.Name n \<noteq> File.Name oldFile) ns)"
  have IH: "distinct (filter (\<lambda>i. i < length ns) (map ?first olds))"
    using Cons by simp
  have fresh: "?first x \<notin> set (map ?first olds)" if lt: "?first x < length ns"
  proof
    assume "?first x \<in> set (map ?first olds)"
    then obtain y where y: "y \<in> set olds" "?first y = ?first x"
      by auto
    have "File.Name (ns ! ?first y) = File.Name y"
      using first_name [of "File.Name y" ns] y(2) lt by simp
    then have ny: "File.Name (ns ! ?first x) = File.Name y"
      by (simp only: y(2))
    have nx: "File.Name (ns ! ?first x) = File.Name x"
      using first_name [of "File.Name x" ns] lt by simp
    from nx ny have "File.Name x = File.Name y"
      by (rule trans [OF sym])
    with y(1) Cons.prems show False
      by auto
  qed
  show ?case
  proof (cases "?first x < length ns")
    case True
    with fresh IH show ?thesis by simp
  next
    case False
    with IH show ?thesis by simp
  qed
qed


lemma perm_upt:
  assumes "distinct taken" and "set taken \<subseteq> {..<n}"
  shows "mset (taken @ filter (\<lambda>i. i \<notin> set taken) [0..<n]) = mset [0..<n]"
proof -
  have "distinct (taken @ filter (\<lambda>i. i \<notin> set taken) [0..<n])"
    using assms(1) by auto
  moreover have "set (taken @ filter (\<lambda>i. i \<notin> set taken) [0..<n]) = set [0..<n]"
    using assms(2) by auto
  ultimately show ?thesis
    by (metis distinct_upt set_eq_iff_mset_eq_distinct)
qed


lemma find_first:
  "find P xs =
     (if length (takeWhile (\<lambda>x. \<not> P x) xs) < length xs
      then Some (xs ! length (takeWhile (\<lambda>x. \<not> P x) xs)) else None)"
  by (induction xs) auto

lemma taken_map_filter:
  "map ((!) ns) (filter (\<lambda>i. i < length ns)
       (map (\<lambda>oldFile. length (takeWhile (\<lambda>n. File.Name n \<noteq> File.Name oldFile) ns)) olds))
   = List.map_filter (\<lambda>oldFile. find (\<lambda>n. File.Name n = File.Name oldFile) ns) olds"
  by (induction olds) (simp_all add: List.map_filter_simps find_first)

text \<open>
  Claim C3, as the code has it. \<open>first oldFile\<close> is the index of the first new file with
  the name of \<open>oldFile\<close> (the length of \<open>new\<close> when there is none); \<open>taken\<close> lists these
  indexes in the order of \<open>old\<close>, old files without a match left out; \<open>rest\<close> lists the
  other indexes of \<open>new\<close> in increasing order. An empty \<open>old\<close> gives back \<open>new\<close>. In general
  the result is the new files at \<open>taken\<close>, then those at \<open>rest\<close>; the first part is, for
  every old file in order, the first new file of its name. When no two old files share a
  name, \<open>taken @ rest\<close> holds every index of \<open>new\<close> exactly once: the result is \<open>new\<close>
  rearranged, nothing twice and nothing lost.
\<close>

theorem MergeStatusFiles_keeps_new:
  "let first = (\<lambda>oldFile. length (takeWhile (\<lambda>n. File.Name n \<noteq> File.Name oldFile) new));
       taken = filter (\<lambda>i. i < length new) (map first old);
       rest = filter (\<lambda>i. i \<notin> set taken) [0..<length new]
   in MergeStatusFiles [] new = new
    \<and> MergeStatusFiles old new = map ((!) new) (taken @ rest)
    \<and> map ((!) new) taken =
        List.map_filter (\<lambda>oldFile. find (\<lambda>n. File.Name n = File.Name oldFile) new) old
    \<and> (distinct (map File.Name old) \<longrightarrow>
          mset (taken @ rest) = mset [0..<length new]
        \<and> mset (MergeStatusFiles old new) = mset new
        \<and> length (MergeStatusFiles old new) = length new)"
proof -
  define taken where
    "taken = filter (\<lambda>i. i < length new)
       (map (\<lambda>oldFile. length (takeWhile (\<lambda>n. File.Name n \<noteq> File.Name oldFile) new)) old)"
  define rest where "rest = filter (\<lambda>i. i \<notin> set taken) [0..<length new]"
  have empty: "MergeStatusFiles [] new = new"
    by (simp add: MergeStatusFiles_def)
  have eq: "MergeStatusFiles old new = map ((!) new) (taken @ rest)"
  proof (cases "old = []")
    case True
    then have "taken = []" "rest = [0..<length new]"
      by (simp_all add: taken_def rest_def)
    with True empty show ?thesis
      by (simp add: map_nth)
  next
    case False
    then show ?thesis
      using MergeStatusFiles_eq [of old new] by (simp add: Let_def taken_def rest_def)
  qed
  have matched: "map ((!) new) taken =
      List.map_filter (\<lambda>oldFile. find (\<lambda>n. File.Name n = File.Name oldFile) new) old"
    unfolding taken_def by (rule taken_map_filter)
  have perm: "mset (taken @ rest) = mset [0..<length new]
        \<and> mset (MergeStatusFiles old new) = mset new
        \<and> length (MergeStatusFiles old new) = length new"
    if d: "distinct (map File.Name old)"
  proof -
    have "distinct taken"
      unfolding taken_def using d by (rule taken_distinct)
    moreover have "set taken \<subseteq> {..<length new}"
      by (auto simp: taken_def)
    ultimately have p: "mset (taken @ rest) = mset [0..<length new]"
      unfolding rest_def by (rule perm_upt)
    have "mset (MergeStatusFiles old new) = image_mset ((!) new) (mset (taken @ rest))"
      by (simp only: eq mset_map)
    also have "\<dots> = mset (map ((!) new) [0..<length new])"
      by (simp only: p mset_map)
    also have "\<dots> = mset new"
      by (simp only: map_nth)
    finally have m: "mset (MergeStatusFiles old new) = mset new" .
    from m have "length (MergeStatusFiles old new) = length new"
      by (rule mset_eq_length)
    with p m show ?thesis by simp
  qed
  from empty eq matched perm show ?thesis
    unfolding Let_def taken_def [symmetric] rest_def [symmetric] by blast
qed

theorem MergeStatusFiles_keeps_new_witness:
  "distinct (map File.Name [File_named ''new_file1.txt'', File_named ''new_file2.txt'', File_named ''new_file3.txt''])
   \<and> MergeStatusFiles
        [File_named ''new_file1.txt'', File_named ''new_file2.txt'', File_named ''new_file3.txt'']
        [File_named ''new_file4.txt'', File_named ''new_file5.txt'', File_named ''new_file1.txt'']
      = [File_named ''new_file1.txt'', File_named ''new_file4.txt'', File_named ''new_file5.txt'']
   \<and> mset (MergeStatusFiles
        [File_named ''new_file1.txt'', File_named ''new_file2.txt'', File_named ''new_file3.txt'']
        [File_named ''new_file4.txt'', File_named ''new_file5.txt'', File_named ''new_file1.txt''])
      = mset [File_named ''new_file4.txt'', File_named ''new_file5.txt'', File_named ''new_file1.txt'']"
proof -
  let ?old = "[File_named ''new_file1.txt'', File_named ''new_file2.txt'', File_named ''new_file3.txt'']"
  let ?new = "[File_named ''new_file4.txt'', File_named ''new_file5.txt'', File_named ''new_file1.txt'']"
  have d: "distinct (map File.Name ?old)"
    by (simp add: File_named_def)
  have run: "MergeStatusFiles ?old ?new
      = [File_named ''new_file1.txt'', File_named ''new_file4.txt'', File_named ''new_file5.txt'']"
    by (simp add: MergeStatusFiles_def File_named_def)
  note all = MergeStatusFiles_keeps_new [of ?new ?old, unfolded Let_def]
  note perm = all [THEN conjunct2, THEN conjunct2, THEN conjunct2, THEN mp, OF d]
  from d run perm [THEN conjunct2, THEN conjunct1] show ?thesis
    by (intro conjI)
qed

text \<open>
  Against claim C3 as worded (every pair of lists): when two old files share a name, the
  new file of that name is appended once for each of them.
\<close>

theorem MergeStatusFiles_duplicate_counterexample:
  "MergeStatusFiles [File_named ''a'', File_named ''a''] [File_named ''a'']
     = [File_named ''a'', File_named ''a'']
   \<and> mset (MergeStatusFiles [File_named ''a'', File_named ''a''] [File_named ''a''])
     \<noteq> mset [File_named ''a'']"
  by (simp add: MergeStatusFiles_def)

section \<open>Properties of the plan builder\<close>

lemma add64_id: "- (2 ^ 63) \<le> a + b \<Longrightarrow> a + b < 2 ^ 63 \<Longrightarrow> add64 a b = a + b"
  unfolding add64_def by (simp add: mod_pos_pos_trivial)

lemma todo_loop_acc:
  "foldl (\<lambda>todo (i, commit).
            (if int i = actionIndex then action else ''pick'')
              @ '' '' @ Sha commit @ '' '' @ Commit.Name commit @ ''\<newline>'' @ todo) acc xs
   = concat (rev (map (\<lambda>(i, commit).
            (if int i = actionIndex then action else ''pick'')
              @ '' '' @ Sha commit @ '' '' @ Commit.Name commit @ ''\<newline>'') xs)) @ acc"
  by (induction xs arbitrary: acc) auto

lemma todo_loop:
  "foldl (\<lambda>todo (i, commit).
            (if int i = actionIndex then action else ''pick'')
              @ '' '' @ Sha commit @ '' '' @ Commit.Name commit @ ''\<newline>'' @ todo) [] xs
   = concat (rev (map (\<lambda>(i, commit).
            (if int i = actionIndex then action else ''pick'')
              @ '' '' @ Sha commit @ '' '' @ Commit.Name commit @ ''\<newline>'') xs))"
  using todo_loop_acc [of actionIndex action "[]" xs] by simp

text \<open>What \<^verbatim>\<open>GenerateGenericRebaseTodo\<close> computes when no increment overflows.\<close>

lemma GenerateGenericRebaseTodo_plain:
  assumes "- (2 ^ 63) \<le> actionIndex" and "actionIndex + 2 < 2 ^ 63"
  shows "GenerateGenericRebaseTodo commits actionIndex action =
     (let fold = (action = ''squash'' \<or> action = ''fixup'');
          baseIndex = actionIndex + (if fold then 2 else 1)
      in if int (length commits) \<le> actionIndex + 1
         then Inl (Error (SLocalize ''CannotRebaseOntoFirstCommit''))
         else if fold \<and> int (length commits) \<le> baseIndex
         then Inl (Error (SLocalize ''CannotSquashOntoSecondCommit''))
         else if baseIndex < 0 then Inl (Panic SliceBoundsOutOfRange)
         else Inr (concat (rev (map (\<lambda>(i, commit).
                     (if int i = actionIndex then action else ''pick'')
                       @ '' '' @ Sha commit @ '' '' @ Commit.Name commit @ ''\<newline>'')
                     (enumerate 0 (take (nat baseIndex) commits)))),
                   Sha (commits ! nat baseIndex)))"
proof -
  have a1: "add64 actionIndex 1 = actionIndex + 1"
    using assms by (simp add: add64_id)
  have a2: "add64 (actionIndex + 1) 1 = actionIndex + 2"
    using assms by (simp add: add64_id)
  show ?thesis
    unfolding GenerateGenericRebaseTodo_def a1 Let_def a2 todo_loop
    by (simp add: sliceTo_def index_def)
qed

lemma GenerateGenericRebaseTodo_overflow:
  assumes "2 ^ 63 - 2 \<le> actionIndex" and "actionIndex < 2 ^ 63" and "int (length commits) < 2 ^ 63"
  shows "\<exists>f. GenerateGenericRebaseTodo commits actionIndex action = Inl f"
proof -
  from assms(1,2) consider "actionIndex = 2 ^ 63 - 2" | "actionIndex = 2 ^ 63 - 1"
    by fastforce
  then show ?thesis
  proof cases
    case 1
    then have "add64 actionIndex 1 = 2 ^ 63 - 1"
      by (simp add: add64_def)
    with assms(3) show ?thesis
      by (simp add: GenerateGenericRebaseTodo_def)
  next
    case 2
    then have a: "add64 actionIndex 1 = - (2 ^ 63)" "add64 (- (2 ^ 63)) 1 = - (2 ^ 63) + 1"
      by (simp_all add: add64_def)
    show ?thesis
      unfolding GenerateGenericRebaseTodo_def Let_def a
      by (simp add: sliceTo_def a)
  qed
qed

text \<open>
  Claim C4. Let a call on a Go slice (fewer than \<open>2^63\<close> commits) and a Go \<^verbatim>\<open>int\<close> return
  \<open>(todo, sha)\<close>. With \<open>baseIndex\<close> one more than \<open>actionIndex\<close>, two more for \<open>squash\<close> and
  \<open>fixup\<close>, the todo is the lines of \<open>plan\<close>, and \<open>plan\<close> holds the commits before
  \<open>baseIndex\<close> in reverse, oldest first; the commit at position \<open>j\<close> of the input carries
  the requested verb when \<open>j\<close> is \<open>actionIndex\<close> and \<open>pick\<close> otherwise; \<open>sha\<close> is that of the
  commit at \<open>baseIndex\<close>.
\<close>

theorem GenerateGenericRebaseTodo_plan:
  assumes "GenerateGenericRebaseTodo commits actionIndex action = Inr (todo, sha)"
      and "- (2 ^ 63) \<le> actionIndex" and "actionIndex < 2 ^ 63"
      and "int (length commits) < 2 ^ 63"
  shows "let baseIndex = actionIndex + (if action = ''squash'' \<or> action = ''fixup'' then 2 else 1);
             plan = rev (map (\<lambda>(i, commit). (if int i = actionIndex then action else ''pick'', commit))
                           (enumerate 0 (take (nat baseIndex) commits)))
         in 0 \<le> baseIndex \<and> baseIndex < int (length commits)
          \<and> todo = concat (map (\<lambda>(verb, commit).
                        verb @ '' '' @ Sha commit @ '' '' @ Commit.Name commit @ ''\<newline>'') plan)
          \<and> map snd plan = rev (take (nat baseIndex) commits)
          \<and> (\<forall>j < nat baseIndex. fst (rev plan ! j) = (if int j = actionIndex then action else ''pick''))
          \<and> sha = Sha (commits ! nat baseIndex)"
proof -
  define baseIndex where
    "baseIndex = actionIndex + (if action = ''squash'' \<or> action = ''fixup'' then 2 else 1)"
  define picked where "picked = take (nat baseIndex) commits"
  define plan where
    "plan = rev (map (\<lambda>(i, commit). (if int i = actionIndex then action else ''pick'', commit))
                   (enumerate 0 picked))"
  have small: "actionIndex + 2 < 2 ^ 63"
  proof (rule ccontr)
    assume "\<not> actionIndex + 2 < 2 ^ 63"
    then have "2 ^ 63 - 2 \<le> actionIndex" by simp
    from GenerateGenericRebaseTodo_overflow [OF this assms(3,4), of action] assms(1)
    show False by simp
  qed
  note plain = GenerateGenericRebaseTodo_plain [OF assms(2) small, of commits action]
  from assms(1) have range: "0 \<le> baseIndex" "baseIndex < int (length commits)"
    unfolding plain baseIndex_def by (auto simp: Let_def split: if_splits)
  from assms(1) have todo: "todo = concat (rev (map (\<lambda>(i, commit).
                     (if int i = actionIndex then action else ''pick'')
                       @ '' '' @ Sha commit @ '' '' @ Commit.Name commit @ ''\<newline>'')
                     (enumerate 0 picked)))"
    and sha: "sha = Sha (commits ! nat baseIndex)"
    unfolding plain baseIndex_def picked_def by (auto simp: Let_def split: if_splits)
  have lines: "todo = concat (map (\<lambda>(verb, commit).
                        verb @ '' '' @ Sha commit @ '' '' @ Commit.Name commit @ ''\<newline>'') plan)"
    unfolding todo plan_def by (simp add: rev_map comp_def case_prod_unfold)
  have covers: "map snd plan = rev (take (nat baseIndex) commits)"
    unfolding plan_def picked_def
    by (simp add: rev_map [symmetric] comp_def case_prod_unfold map_snd_enumerate [unfolded comp_def])
  have len: "length picked = nat baseIndex"
    using range by (simp add: picked_def)
  have verbs: "fst (rev plan ! j) = (if int j = actionIndex then action else ''pick'')"
    if "j < nat baseIndex" for j
    using that len by (simp add: plan_def nth_enumerate_eq)
  from range lines covers verbs sha show ?thesis
    unfolding Let_def baseIndex_def [symmetric] picked_def [symmetric] plan_def [symmetric]
    by blast
qed

theorem GenerateGenericRebaseTodo_plan_witness:
  "GenerateGenericRebaseTodo
      [\<lparr>Sha = ''s0'', Name = ''n0''\<rparr>, \<lparr>Sha = ''s1'', Name = ''n1''\<rparr>,
       \<lparr>Sha = ''s2'', Name = ''n2''\<rparr>, \<lparr>Sha = ''s3'', Name = ''n3''\<rparr>] 1 ''squash''
     = Inr (''pick s2 n2\<newline>squash s1 n1\<newline>pick s0 n0\<newline>'', ''s3'')
   \<and> - (2 ^ 63) \<le> (1::int) \<and> (1::int) < 2 ^ 63 \<and> int (length [\<lparr>Sha = ''s0'', Name = ''n0''\<rparr>, \<lparr>Sha = ''s1'', Name = ''n1''\<rparr>,
       \<lparr>Sha = ''s2'', Name = ''n2''\<rparr>, \<lparr>Sha = ''s3'', Name = ''n3''\<rparr>]) < 2 ^ 63
   \<and> ''pick s2 n2\<newline>squash s1 n1\<newline>pick s0 n0\<newline>''
       = concat (map (\<lambda>(verb, commit). verb @ '' '' @ Sha commit @ '' '' @ Commit.Name commit @ ''\<newline>'')
           [(''pick'', \<lparr>Sha = ''s2'', Name = ''n2''\<rparr>), (''squash'', \<lparr>Sha = ''s1'', Name = ''n1''\<rparr>),
            (''pick'', \<lparr>Sha = ''s0'', Name = ''n0''\<rparr>)])"
proof -
  let ?cs = "[\<lparr>Sha = ''s0'', Name = ''n0''\<rparr>, \<lparr>Sha = ''s1'', Name = ''n1''\<rparr>,
              \<lparr>Sha = ''s2'', Name = ''n2''\<rparr>, \<lparr>Sha = ''s3'', Name = ''n3''\<rparr>]"
  have run: "GenerateGenericRebaseTodo ?cs 1 ''squash''
     = Inr (''pick s2 n2\<newline>squash s1 n1\<newline>pick s0 n0\<newline>'', ''s3'')"
    by (simp add: GenerateGenericRebaseTodo_def add64_def sliceTo_def index_def enumerate_eq_zip
          upt_rec)
  have lo: "- (2 ^ 63) \<le> (1::int)" and hi: "(1::int) < 2 ^ 63"
    and len: "int (length ?cs) < 2 ^ 63"
    by simp_all
  from GenerateGenericRebaseTodo_plan [OF run lo hi len] run show ?thesis
    by (simp add: Let_def enumerate_eq_zip upt_rec)
qed

text \<open>
  Claim C5. For a Go \<^verbatim>\<open>int\<close> whose two increments do not overflow, the call fails with one
  of the two history errors (\<open>CannotRebaseOntoFirstCommit\<close>, \<open>CannotSquashOntoSecondCommit\<close>)
  exactly when the number of commits is at most \<open>baseIndex\<close>, which is \<open>actionIndex + 1\<close>,
  and \<open>actionIndex + 2\<close> for \<open>squash\<close> and \<open>fixup\<close>; no other error value is ever returned;
  and \<open>squash\<close> with exactly \<open>actionIndex + 2\<close> commits fails.
\<close>

theorem GenerateGenericRebaseTodo_fails_iff:
  assumes "- (2 ^ 63) \<le> actionIndex" and "actionIndex + 2 < 2 ^ 63"
  shows "((GenerateGenericRebaseTodo commits actionIndex action
             = Inl (Error (SLocalize ''CannotRebaseOntoFirstCommit''))
          \<or> GenerateGenericRebaseTodo commits actionIndex action
             = Inl (Error (SLocalize ''CannotSquashOntoSecondCommit'')))
         \<longleftrightarrow> int (length commits)
               \<le> actionIndex + (if action = ''squash'' \<or> action = ''fixup'' then 2 else 1))
       \<and> ((\<exists>e. GenerateGenericRebaseTodo commits actionIndex action = Inl (Error e))
         \<longleftrightarrow> int (length commits)
               \<le> actionIndex + (if action = ''squash'' \<or> action = ''fixup'' then 2 else 1))
       \<and> (int (length commits) = actionIndex + 2 \<longrightarrow>
            GenerateGenericRebaseTodo commits actionIndex ''squash''
              = Inl (Error (SLocalize ''CannotSquashOntoSecondCommit'')))"
  unfolding GenerateGenericRebaseTodo_plain [OF assms]
  by (auto simp: Let_def)

theorem GenerateGenericRebaseTodo_fails_iff_witness:
  "- (2 ^ 63) \<le> (0::int) \<and> (0::int) + 2 < 2 ^ 63
   \<and> GenerateGenericRebaseTodo
        [\<lparr>Sha = ''123456'', Name = ''commit''\<rparr>, \<lparr>Sha = ''abcdef'', Name = ''commit2''\<rparr>] 0 ''squash''
      = Inl (Error (SLocalize ''CannotSquashOntoSecondCommit''))
   \<and> (\<exists>e. GenerateGenericRebaseTodo [\<lparr>Sha = ''123456'', Name = ''commit''\<rparr>] 0 ''edit''
             = Inl (Error e))
   \<and> \<not> (\<exists>e. GenerateGenericRebaseTodo
        [\<lparr>Sha = ''123456'', Name = ''commit''\<rparr>, \<lparr>Sha = ''abcdef'', Name = ''commit2''\<rparr>] 0 ''edit''
             = Inl (Error e))"
proof -
  have lo: "- (2 ^ 63) \<le> (0::int)" and hi: "(0::int) + 2 < 2 ^ 63"
    by simp_all
  note two = GenerateGenericRebaseTodo_fails_iff [OF lo hi,
      of "[\<lparr>Sha = ''123456'', Name = ''commit''\<rparr>, \<lparr>Sha = ''abcdef'', Name = ''commit2''\<rparr>]"]
  note one = GenerateGenericRebaseTodo_fails_iff [OF lo hi,
      of "[\<lparr>Sha = ''123456'', Name = ''commit''\<rparr>]" "''edit''"]
  from two [of "''squash''", THEN conjunct2, THEN conjunct2]
  have "GenerateGenericRebaseTodo
        [\<lparr>Sha = ''123456'', Name = ''commit''\<rparr>, \<lparr>Sha = ''abcdef'', Name = ''commit2''\<rparr>] 0 ''squash''
      = Inl (Error (SLocalize ''CannotSquashOntoSecondCommit''))"
    by simp
  moreover from one [THEN conjunct2, THEN conjunct1]
  have "\<exists>e. GenerateGenericRebaseTodo [\<lparr>Sha = ''123456'', Name = ''commit''\<rparr>] 0 ''edit''
             = Inl (Error e)"
    by simp
  moreover from two [of "''edit''", THEN conjunct2, THEN conjunct1]
  have "\<not> (\<exists>e. GenerateGenericRebaseTodo
        [\<lparr>Sha = ''123456'', Name = ''commit''\<rparr>, \<lparr>Sha = ''abcdef'', Name = ''commit2''\<rparr>] 0 ''edit''
             = Inl (Error e))"
    by simp
  ultimately show ?thesis
    using lo hi by blast
qed

lemma pick_loop_acc:
  "foldl (\<lambda>todo commit.
            ''pick '' @ Sha commit @ '' '' @ Commit.Name commit @ ''\<newline>'' @ todo) acc xs
   = concat (map (\<lambda>commit. ''pick '' @ Sha commit @ '' '' @ Commit.Name commit @ ''\<newline>'') (rev xs))
     @ acc"
  by (induction xs arbitrary: acc) auto

lemma take_swapped:
  assumes "Suc i < length xs"
  shows "take (i + 2) (xs[i := xs ! Suc i, Suc i := xs ! i]) = take i xs @ [xs ! Suc i, xs ! i]"
proof (rule nth_equalityI)
  show "length (take (i + 2) (xs[i := xs ! Suc i, Suc i := xs ! i]))
          = length (take i xs @ [xs ! Suc i, xs ! i])"
    using assms by simp
next
  fix j
  assume "j < length (take (i + 2) (xs[i := xs ! Suc i, Suc i := xs ! i]))"
  then have j: "j < i + 2"
    by simp
  then consider "j < i" | "j = i" | "j = Suc i"
    by linarith
  then show "take (i + 2) (xs[i := xs ! Suc i, Suc i := xs ! i]) ! j
               = (take i xs @ [xs ! Suc i, xs ! i]) ! j"
    using assms by cases (simp_all add: nth_append)
qed

lemma MoveCommitDown_plain:
  assumes "- (2 ^ 63) \<le> idx" and "idx + 2 < 2 ^ 63"
  shows "MoveCommitDown os commits idx c =
     (if int (length commits) \<le> idx + 2 then (Some (Error (SLocalize ''NoRoom'')), commits, c)
      else if idx < 0 then (Some (Panic SliceBoundsOutOfRange), commits, c)
      else
        let i = nat idx;
            swapped = commits[i := commits ! Suc i, Suc i := commits ! i];
            todo = concat (map (\<lambda>commit.
                      ''pick '' @ Sha commit @ '' '' @ Commit.Name commit @ ''\<newline>'')
                    (rev (take (i + 2) swapped)));
            cl = RunPreparedCommand
                   (PrepareInteractiveRebaseCommand os (Sha (commits ! (i + 2))) todo True)
        in (map_option (\<lambda>msg. Error (ExitError msg)) (respond os (calls c) cl), swapped,
            c\<lparr>calls := calls c @ [cl]\<rparr>))"
proof -
  have a1: "add64 idx 1 = idx + 1" and a2: "add64 idx 2 = idx + 2"
    using assms by (simp_all add: add64_id)
  show ?thesis
  proof (cases "int (length commits) \<le> idx + 2 \<or> idx < 0")
    case True
    then show ?thesis
      unfolding MoveCommitDown_def a1 a2 by (auto simp: sliceTo_def)
  next
    case False
    define i where "i = nat idx"
    define swapped where "swapped = commits[i := commits ! Suc i, Suc i := commits ! i]"
    define todo where
      "todo = concat (map (\<lambda>commit.
                  ''pick '' @ Sha commit @ '' '' @ Commit.Name commit @ ''\<newline>'')
                (rev (take (i + 2) swapped)))"
    define cl where
      "cl = RunPreparedCommand
              (PrepareInteractiveRebaseCommand os (Sha (commits ! (i + 2))) todo True)"
    from False have i: "0 \<le> idx" "i + 2 < length commits"
      by (auto simp: i_def)
    have room: "\<not> int (length commits) \<le> idx + 2" and pos: "\<not> idx < 0"
      using False by auto
    have upper: "sliceTo commits idx = Inr (take i commits)"
      using i by (simp add: sliceTo_def i_def)
    have below: "index commits (idx + 1) = Inr (commits ! Suc i)"
      using i by (simp add: index_def i_def nat_add_distrib)
    have selected: "index commits idx = Inr (commits ! i)"
      using i by (simp add: index_def i_def)
    have base: "index (commits[nat idx := commits ! Suc i, Suc (nat idx) := commits ! i]) (idx + 2)
                  = Inr (commits ! (i + 2))"
      using i by (simp add: index_def i_def nat_add_distrib)
    have loop: "foldl (\<lambda>todo commit.
                   ''pick '' @ Sha commit @ '' '' @ Commit.Name commit @ ''\<newline>'' @ todo) []
                 (take i commits @ [commits ! Suc i, commits ! i]) = todo"
      using i take_swapped [of i commits]
      by (simp only: pick_loop_acc todo_def swapped_def append_Nil2)
    have "MoveCommitDown os commits idx c =
            (map_option (\<lambda>msg. Error (ExitError msg)) (respond os (calls c) cl), swapped,
             c\<lparr>calls := calls c @ [cl]\<rparr>)"
      unfolding MoveCommitDown_def a1 a2 Let_def
      by (simp only: room if_False upper below selected base loop sum.case)
         (cases "respond os (calls c) cl";
          simp add: perform_def cl_def swapped_def i_def)
    then show ?thesis
      unfolding Let_def i_def [symmetric] swapped_def [symmetric] todo_def [symmetric]
        cl_def [symmetric]
      using room pos by simp
  qed
qed

lemma rev_take_two:
  assumes "Suc i < length xs"
  shows "rev (take (i + 2) xs) = xs ! Suc i # xs ! i # rev (take i xs)"
proof -
  have "take (Suc (Suc i)) xs = take i xs @ [xs ! i, xs ! Suc i]"
    using assms by (simp add: take_Suc_conv_app_nth)
  then show ?thesis by simp
qed

text \<open>
  Claim C6. For a Go \<^verbatim>\<open>int\<close> \<open>idx\<close> such that \<open>idx + 2\<close> does not overflow,
  \<^verbatim>\<open>MoveCommitDown\<close> fails with \<open>NoRoom\<close> exactly when there are at most \<open>idx + 2\<close> commits,
  and then runs nothing. When it returns no error, \<open>idx\<close> is a position with two commits
  beneath it, and the one call made is the rebase onto the commit at \<open>idx + 2\<close> with the
  todo of \<open>plan\<close>: every line a \<open>pick\<close>, the commits before \<open>idx + 2\<close> oldest first, but
  with the commits at \<open>idx\<close> and \<open>idx + 1\<close> in each other's place.
\<close>

theorem MoveCommitDown_swaps:
  assumes "- (2 ^ 63) \<le> idx" and "idx + 2 < 2 ^ 63"
  shows "(fst (MoveCommitDown os commits idx c) = Some (Error (SLocalize ''NoRoom''))
            \<longleftrightarrow> int (length commits) \<le> idx + 2)
       \<and> (int (length commits) \<le> idx + 2 \<longrightarrow>
            MoveCommitDown os commits idx c = (Some (Error (SLocalize ''NoRoom'')), commits, c))
       \<and> (fst (MoveCommitDown os commits idx c) = None \<longrightarrow>
            (let i = nat idx;
                 plan = commits ! i # commits ! Suc i # rev (take i commits);
                 todo = concat (map (\<lambda>commit.
                           ''pick '' @ Sha commit @ '' '' @ Commit.Name commit @ ''\<newline>'') plan)
             in 0 \<le> idx \<and> idx + 2 < int (length commits)
              \<and> rev (take (i + 2) commits) = commits ! Suc i # commits ! i # rev (take i commits)
              \<and> calls (snd (snd (MoveCommitDown os commits idx c)))
                  = calls c @ [RunPreparedCommand
                      (PrepareInteractiveRebaseCommand os (Sha (commits ! (i + 2))) todo True)]))"
proof (intro conjI impI)
  note plain = MoveCommitDown_plain [OF assms, of os commits c]
  show "fst (MoveCommitDown os commits idx c) = Some (Error (SLocalize ''NoRoom''))
            \<longleftrightarrow> int (length commits) \<le> idx + 2"
    unfolding plain by (auto simp: Let_def map_option_case split: option.splits)
  show "MoveCommitDown os commits idx c = (Some (Error (SLocalize ''NoRoom'')), commits, c)"
    if "int (length commits) \<le> idx + 2"
    unfolding plain using that by simp
  assume ok: "fst (MoveCommitDown os commits idx c) = None"
  then have range: "0 \<le> idx" "idx + 2 < int (length commits)"
    unfolding plain by (auto simp: Let_def split: if_splits)
  then have i: "Suc (nat idx) < length commits"
    by auto
  have swapped: "rev (take (nat idx + 2) (commits[nat idx := commits ! Suc (nat idx),
                                                    Suc (nat idx) := commits ! nat idx]))
                   = commits ! nat idx # commits ! Suc (nat idx) # rev (take (nat idx) commits)"
    using take_swapped [OF i] by simp
  have "calls (snd (snd (MoveCommitDown os commits idx c)))
          = calls c @ [RunPreparedCommand
              (PrepareInteractiveRebaseCommand os (Sha (commits ! (nat idx + 2)))
                 (concat (map (\<lambda>commit.
                    ''pick '' @ Sha commit @ '' '' @ Commit.Name commit @ ''\<newline>'')
                    (commits ! nat idx # commits ! Suc (nat idx) # rev (take (nat idx) commits))))
                 True)]"
    unfolding plain Let_def swapped using range by simp
  with range rev_take_two [OF i]
  show "let i = nat idx;
            plan = commits ! i # commits ! Suc i # rev (take i commits);
            todo = concat (map (\<lambda>commit.
                      ''pick '' @ Sha commit @ '' '' @ Commit.Name commit @ ''\<newline>'') plan)
        in 0 \<le> idx \<and> idx + 2 < int (length commits)
         \<and> rev (take (i + 2) commits) = commits ! Suc i # commits ! i # rev (take i commits)
         \<and> calls (snd (snd (MoveCommitDown os commits idx c)))
             = calls c @ [RunPreparedCommand
                 (PrepareInteractiveRebaseCommand os (Sha (commits ! (i + 2))) todo True)]"
    unfolding Let_def by blast
qed

theorem MoveCommitDown_swaps_witness:
  "- (2 ^ 63) \<le> (1::int) \<and> (1::int) + 2 < 2 ^ 63
   \<and> fst (MoveCommitDown NewDummyOSCommand
        [\<lparr>Sha = ''s0'', Name = ''n0''\<rparr>, \<lparr>Sha = ''s1'', Name = ''n1''\<rparr>,
         \<lparr>Sha = ''s2'', Name = ''n2''\<rparr>, \<lparr>Sha = ''s3'', Name = ''n3''\<rparr>] 1 NewDummyGitCommand) = None
   \<and> calls (snd (snd (MoveCommitDown NewDummyOSCommand
        [\<lparr>Sha = ''s0'', Name = ''n0''\<rparr>, \<lparr>Sha = ''s1'', Name = ''n1''\<rparr>,
         \<lparr>Sha = ''s2'', Name = ''n2''\<rparr>, \<lparr>Sha = ''s3'', Name = ''n3''\<rparr>] 1 NewDummyGitCommand)))
      = [RunPreparedCommand (PrepareInteractiveRebaseCommand NewDummyOSCommand ''s3''
           ''pick s1 n1\<newline>pick s2 n2\<newline>pick s0 n0\<newline>'' True)]
   \<and> fst (MoveCommitDown NewDummyOSCommand
        [\<lparr>Sha = ''s0'', Name = ''n0''\<rparr>, \<lparr>Sha = ''s1'', Name = ''n1''\<rparr>,
         \<lparr>Sha = ''s2'', Name = ''n2''\<rparr>] 1 NewDummyGitCommand) = Some (Error (SLocalize ''NoRoom''))"
proof -
  let ?cs = "[\<lparr>Sha = ''s0'', Name = ''n0''\<rparr>, \<lparr>Sha = ''s1'', Name = ''n1''\<rparr>,
              \<lparr>Sha = ''s2'', Name = ''n2''\<rparr>, \<lparr>Sha = ''s3'', Name = ''n3''\<rparr>]"
  let ?cs3 = "[\<lparr>Sha = ''s0'', Name = ''n0''\<rparr>, \<lparr>Sha = ''s1'', Name = ''n1''\<rparr>,
               \<lparr>Sha = ''s2'', Name = ''n2''\<rparr>]"
  have lo: "- (2 ^ 63) \<le> (1::int)" and hi: "(1::int) + 2 < 2 ^ 63"
    by simp_all
  note four = MoveCommitDown_swaps [OF lo hi, of NewDummyOSCommand ?cs NewDummyGitCommand]
  note three = MoveCommitDown_swaps [OF lo hi, of NewDummyOSCommand ?cs3 NewDummyGitCommand]
  have ok: "fst (MoveCommitDown NewDummyOSCommand ?cs 1 NewDummyGitCommand) = None"
    by (simp add: MoveCommitDown_def add64_def sliceTo_def index_def perform_def
          NewDummyOSCommand_def Let_def)
  from four [THEN conjunct2, THEN conjunct2, THEN mp, OF ok]
  have "calls (snd (snd (MoveCommitDown NewDummyOSCommand ?cs 1 NewDummyGitCommand)))
      = [RunPreparedCommand (PrepareInteractiveRebaseCommand NewDummyOSCommand ''s3''
           ''pick s1 n1\<newline>pick s2 n2\<newline>pick s0 n0\<newline>'' True)]"
    by (simp add: Let_def NewDummyGitCommand_def)
  moreover from three [THEN conjunct1]
  have "fst (MoveCommitDown NewDummyOSCommand ?cs3 1 NewDummyGitCommand)
          = Some (Error (SLocalize ''NoRoom''))"
    by simp
  ultimately show ?thesis
    using lo hi ok by blast
qed

section \<open>Properties of the rewrite driver\<close>

lemma GenericMerge_failed:
  assumes "respond os (calls c) (call.RunSkipEditorCommand (''git '' @ commandType @ '' --'' @ command))
             = Some msg"
  shows "GenericMerge invoke os commandType command c =
           (Some (Error (ExitError msg)),
            c\<lparr>calls := calls c @ [call.RunSkipEditorCommand (''git '' @ commandType @ '' --'' @ command)]\<rparr>)"
  using assms by (simp add: GenericMerge_def RunSkipEditorCommand_def perform_def)

lemma GenericMerge_continue:
  assumes "respond os (calls c) (call.RunSkipEditorCommand ''git rebase --continue'') = None"
      and "onSuccessfulContinue c = Some k"
  shows "GenericMerge invoke os ''rebase'' ''continue'' c =
           invoke k (c\<lparr>calls := calls c @ [call.RunSkipEditorCommand ''git rebase --continue''],
                       onSuccessfulContinue := None\<rparr>)"
  using assms by (simp add: GenericMerge_def RunSkipEditorCommand_def perform_def)

lemma GenericMerge_abort:
  assumes "respond os (calls c) (call.RunSkipEditorCommand (''git '' @ commandType @ '' --abort''))
             = None"
  shows "GenericMerge invoke os commandType ''abort'' c =
           (None, c\<lparr>calls := calls c @ [call.RunSkipEditorCommand (''git '' @ commandType @ '' --abort'')],
                     onSuccessfulContinue := None\<rparr>)"
  using assms by (simp add: GenericMerge_def RunSkipEditorCommand_def perform_def)

lemma GenericMerge_idle:
  assumes "onSuccessfulContinue c = None"
  shows "GenericMerge invoke os commandType command c =
           (map_option (\<lambda>msg. Error (ExitError msg))
              (respond os (calls c)
                 (call.RunSkipEditorCommand (''git '' @ commandType @ '' --'' @ command))),
            c\<lparr>calls := calls c @ [call.RunSkipEditorCommand (''git '' @ commandType @ '' --'' @ command)]\<rparr>)"
proof -
  have same: "c\<lparr>calls := xs, onSuccessfulContinue := None\<rparr> = c\<lparr>calls := xs\<rparr>" for xs
    using assms by simp
  show ?thesis
    using assms
    by (cases "respond os (calls c)
                 (call.RunSkipEditorCommand (''git '' @ commandType @ '' --'' @ command))")
       (simp_all add: GenericMerge_def RunSkipEditorCommand_def perform_def same)
qed

lemma GenericMerge_session_idle:
  assumes "onSuccessfulContinue c = None"
  shows "GenericMerge_session invoke os requests c = GenericMerge_session invoke' os requests c
       \<and> onSuccessfulContinue (snd (GenericMerge_session invoke os requests c)) = None"
  using assms
proof (induction requests arbitrary: c)
  case Nil
  then show ?case by simp
next
  case (Cons r requests)
  obtain commandType command where r: "r = (commandType, command)"
    by (cases r)
  define c1 where
    "c1 = c\<lparr>calls := calls c @ [call.RunSkipEditorCommand (''git '' @ commandType @ '' --'' @ command)]\<rparr>"
  have idle: "onSuccessfulContinue c1 = None"
    using Cons.prems by (simp add: c1_def)
  note step = GenericMerge_idle [OF Cons.prems, of _ os commandType command, folded c1_def]
  from Cons.IH [OF idle] show ?case
    by (auto simp: r step split: prod.splits)
qed

text \<open>
  Claim C1, as the code has it. When \<^verbatim>\<open>git rebase --continue\<close> succeeds and a continuation
  \<open>k\<close> is pending, \<^verbatim>\<open>GenericMerge\<close> returns what one run of \<open>k\<close> returns, started in the state
  where the field is already cleared. When the abort command succeeds, whatever the command
  type, the field is cleared and the result does not depend on any continuation; in every
  later session of \<^verbatim>\<open>GenericMerge\<close> calls no continuation runs (the session is the same
  for any other \<open>invoke'\<close>) and the field stays empty.
\<close>

theorem GenericMerge_continuation:
  "(respond os (calls c) (call.RunSkipEditorCommand ''git rebase --continue'') = None
      \<and> onSuccessfulContinue c = Some k \<longrightarrow>
      GenericMerge invoke os ''rebase'' ''continue'' c =
        invoke k (c\<lparr>calls := calls c @ [call.RunSkipEditorCommand ''git rebase --continue''],
                    onSuccessfulContinue := None\<rparr>))
   \<and> (respond os (calls c) (call.RunSkipEditorCommand (''git '' @ commandType @ '' --abort'')) = None
      \<longrightarrow>
      GenericMerge invoke os commandType ''abort'' c =
        (None, c\<lparr>calls := calls c @ [call.RunSkipEditorCommand (''git '' @ commandType @ '' --abort'')],
                  onSuccessfulContinue := None\<rparr>)
      \<and> (\<forall>requests invoke'.
            GenericMerge_session invoke os requests (snd (GenericMerge invoke os commandType ''abort'' c))
              = GenericMerge_session invoke' os requests
                  (snd (GenericMerge invoke os commandType ''abort'' c))
          \<and> onSuccessfulContinue (snd (GenericMerge_session invoke os requests
                (snd (GenericMerge invoke os commandType ''abort'' c)))) = None))"
proof (intro conjI impI allI)
  assume a: "respond os (calls c) (call.RunSkipEditorCommand ''git rebase --continue'') = None
            \<and> onSuccessfulContinue c = Some k"
  show "GenericMerge invoke os ''rebase'' ''continue'' c =
        invoke k (c\<lparr>calls := calls c @ [call.RunSkipEditorCommand ''git rebase --continue''],
                    onSuccessfulContinue := None\<rparr>)"
    by (rule GenericMerge_continue [OF conjunct1 [OF a] conjunct2 [OF a]])
next
  assume ok: "respond os (calls c) (call.RunSkipEditorCommand (''git '' @ commandType @ '' --abort''))
                = None"
  note abort = GenericMerge_abort [OF ok, of invoke]
  show "GenericMerge invoke os commandType ''abort'' c =
        (None, c\<lparr>calls := calls c @ [call.RunSkipEditorCommand (''git '' @ commandType @ '' --abort'')],
                  onSuccessfulContinue := None\<rparr>)"
    by (rule abort)
  have idle: "onSuccessfulContinue (snd (GenericMerge invoke os commandType ''abort'' c)) = None"
    by (simp add: abort)
  fix requests and invoke' :: "'a continuation"
  note later = GenericMerge_session_idle [OF idle, of invoke os requests invoke']
  show "GenericMerge_session invoke os requests (snd (GenericMerge invoke os commandType ''abort'' c))
          = GenericMerge_session invoke' os requests
              (snd (GenericMerge invoke os commandType ''abort'' c))"
    by (rule later [THEN conjunct1])
  show "onSuccessfulContinue (snd (GenericMerge_session invoke os requests
                (snd (GenericMerge invoke os commandType ''abort'' c)))) = None"
    by (rule later [THEN conjunct2])
qed

theorem GenericMerge_continuation_witness:
  "respond NewDummyOSCommand (calls (NewDummyGitCommand\<lparr>onSuccessfulContinue := Some 7\<rparr>))
       (call.RunSkipEditorCommand ''git rebase --continue'') = None
   \<and> GenericMerge (\<lambda>k c. (Some (Error (New ''continuation ran'')), c)) NewDummyOSCommand
        ''rebase'' ''continue'' (NewDummyGitCommand\<lparr>onSuccessfulContinue := Some 7\<rparr>)
      = (Some (Error (New ''continuation ran'')),
         NewDummyGitCommand\<lparr>calls := [call.RunSkipEditorCommand ''git rebase --continue'']\<rparr>)
   \<and> GenericMerge (\<lambda>k c. (Some (Error (New ''continuation ran'')), c)) NewDummyOSCommand
        ''rebase'' ''abort'' (NewDummyGitCommand\<lparr>onSuccessfulContinue := Some 7\<rparr>)
      = (None, NewDummyGitCommand\<lparr>calls := [call.RunSkipEditorCommand ''git rebase --abort'']\<rparr>)
   \<and> fst (GenericMerge_session (\<lambda>k c. (Some (Error (New ''continuation ran'')), c)) NewDummyOSCommand
        [(''rebase'', ''continue'')]
        (snd (GenericMerge (\<lambda>k c. (Some (Error (New ''continuation ran'')), c)) NewDummyOSCommand
           ''rebase'' ''abort'' (NewDummyGitCommand\<lparr>onSuccessfulContinue := Some 7\<rparr>))))
      = fst (GenericMerge_session (\<lambda>k c. (None, c)) NewDummyOSCommand
        [(''rebase'', ''continue'')]
        (snd (GenericMerge (\<lambda>k c. (Some (Error (New ''continuation ran'')), c)) NewDummyOSCommand
           ''rebase'' ''abort'' (NewDummyGitCommand\<lparr>onSuccessfulContinue := Some 7\<rparr>))))"
proof -
  let ?c = "NewDummyGitCommand\<lparr>onSuccessfulContinue := Some 7\<rparr>"
  let ?invoke = "\<lambda>(k::nat) (c::nat GitCommand). (Some (Error (New ''continuation ran'')), c)"
  have ok: "respond NewDummyOSCommand (calls ?c) cl = None" for cl
    by (simp add: NewDummyOSCommand_def)
  note all = GenericMerge_continuation [of NewDummyOSCommand ?c 7 ?invoke "''rebase''"]
  have pending: "onSuccessfulContinue ?c = Some 7"
    by simp
  from all [THEN conjunct1] ok pending
  have "GenericMerge ?invoke NewDummyOSCommand ''rebase'' ''continue'' ?c
      = (Some (Error (New ''continuation ran'')),
         NewDummyGitCommand\<lparr>calls := [call.RunSkipEditorCommand ''git rebase --continue'']\<rparr>)"
    by (simp add: NewDummyGitCommand_def)
  moreover from all [THEN conjunct2] ok
  have "GenericMerge ?invoke NewDummyOSCommand ''rebase'' ''abort'' ?c
      = (None, NewDummyGitCommand\<lparr>calls := [call.RunSkipEditorCommand ''git rebase --abort'']\<rparr>)"
    by (simp add: NewDummyGitCommand_def)
  moreover
  have "GenericMerge_session ?invoke NewDummyOSCommand [(''rebase'', ''continue'')]
          (snd (GenericMerge ?invoke NewDummyOSCommand ''rebase'' ''abort'' ?c))
      = GenericMerge_session (\<lambda>k c. (None, c)) NewDummyOSCommand [(''rebase'', ''continue'')]
          (snd (GenericMerge ?invoke NewDummyOSCommand ''rebase'' ''abort'' ?c))"
    by (rule all [THEN conjunct2, THEN mp, OF ok, THEN conjunct2, THEN spec, THEN spec,
                  THEN conjunct1])
  then
  have "fst (GenericMerge_session ?invoke NewDummyOSCommand [(''rebase'', ''continue'')]
          (snd (GenericMerge ?invoke NewDummyOSCommand ''rebase'' ''abort'' ?c)))
      = fst (GenericMerge_session (\<lambda>k c. (None, c)) NewDummyOSCommand [(''rebase'', ''continue'')]
          (snd (GenericMerge ?invoke NewDummyOSCommand ''rebase'' ''abort'' ?c)))"
    by (rule arg_cong)
  ultimately show ?thesis
    using ok by blast
qed

text \<open>
  Against claim C1 as worded (every abort clears the field): when the abort command itself
  fails, the continuation stays pending, and the next successful
  \<^verbatim>\<open>git rebase --continue\<close> runs it.
\<close>

theorem GenericMerge_failed_abort_counterexample:
  "onSuccessfulContinue (snd (GenericMerge (\<lambda>k c. (Some (Error (New ''continuation ran'')), c))
       (NewDummyOSCommand\<lparr>respond := (\<lambda>history cl.
          if cl = call.RunSkipEditorCommand ''git rebase --abort'' then Some ''fatal'' else None)\<rparr>)
       ''rebase'' ''abort'' (NewDummyGitCommand\<lparr>onSuccessfulContinue := Some 7\<rparr>))) = Some 7
   \<and> fst (GenericMerge_session (\<lambda>k c. (Some (Error (New ''continuation ran'')), c))
       (NewDummyOSCommand\<lparr>respond := (\<lambda>history cl.
          if cl = call.RunSkipEditorCommand ''git rebase --abort'' then Some ''fatal'' else None)\<rparr>)
       [(''rebase'', ''abort''), (''rebase'', ''continue'')]
       (NewDummyGitCommand\<lparr>onSuccessfulContinue := Some 7\<rparr>))
     = [Some (Error (ExitError ''fatal'')), Some (Error (New ''continuation ran''))]"
  by (simp add: GenericMerge_def RunSkipEditorCommand_def perform_def NewDummyOSCommand_def
        NewDummyGitCommand_def)

text \<open>
  Claim C10. When the external command of \<^verbatim>\<open>GenericMerge\<close> comes back with an error, that
  error is returned, the state differs from the one before in the call history alone, and
  no continuation is run (the result names none): the field \<^verbatim>\<open>onSuccessfulContinue\<close> is as
  it was, for \<open>abort\<close> as for any other command. With a continuation pending, an abort
  leaves the field empty exactly when its command succeeded. No other command discards a
  continuation: a successful command that is not \<open>abort\<close> leaves the whole state as it was
  but for the call history, unless it is \<^verbatim>\<open>rebase --continue\<close> with a continuation pending,
  and then the continuation is run, on the state with the field cleared.
\<close>

theorem GenericMerge_error_leaves_continuation:
  "(respond os (calls c) (call.RunSkipEditorCommand (''git '' @ commandType @ '' --'' @ command))
        = Some msg \<longrightarrow>
      GenericMerge invoke os commandType command c =
        (Some (Error (ExitError msg)),
         c\<lparr>calls := calls c @ [call.RunSkipEditorCommand (''git '' @ commandType @ '' --'' @ command)]\<rparr>)
      \<and> onSuccessfulContinue (snd (GenericMerge invoke os commandType command c))
          = onSuccessfulContinue c)
   \<and> (onSuccessfulContinue c = Some k \<longrightarrow>
        (onSuccessfulContinue (snd (GenericMerge invoke os commandType ''abort'' c)) = None
           \<longleftrightarrow> respond os (calls c)
                 (call.RunSkipEditorCommand (''git '' @ commandType @ '' --abort'')) = None))
   \<and> (respond os (calls c) (call.RunSkipEditorCommand (''git '' @ commandType @ '' --'' @ command))
        = None
      \<and> command \<noteq> ''abort''
      \<and> \<not> (commandType = ''rebase'' \<and> command = ''continue'' \<and> onSuccessfulContinue c \<noteq> None)
      \<longrightarrow>
      GenericMerge invoke os commandType command c =
        (None,
         c\<lparr>calls := calls c @ [call.RunSkipEditorCommand (''git '' @ commandType @ '' --'' @ command)]\<rparr>)
      \<and> onSuccessfulContinue (snd (GenericMerge invoke os commandType command c))
          = onSuccessfulContinue c)
   \<and> (respond os (calls c) (call.RunSkipEditorCommand ''git rebase --continue'') = None
      \<and> onSuccessfulContinue c = Some k \<longrightarrow>
      GenericMerge invoke os ''rebase'' ''continue'' c =
        invoke k (c\<lparr>calls := calls c @ [call.RunSkipEditorCommand ''git rebase --continue''],
                    onSuccessfulContinue := None\<rparr>))"
proof (intro conjI impI)
  assume failed: "respond os (calls c)
      (call.RunSkipEditorCommand (''git '' @ commandType @ '' --'' @ command)) = Some msg"
  note run = GenericMerge_failed [OF failed, of invoke]
  show "GenericMerge invoke os commandType command c =
        (Some (Error (ExitError msg)),
         c\<lparr>calls := calls c @ [call.RunSkipEditorCommand (''git '' @ commandType @ '' --'' @ command)]\<rparr>)"
    by (rule run)
  show "onSuccessfulContinue (snd (GenericMerge invoke os commandType command c))
          = onSuccessfulContinue c"
    by (simp add: run)
next
  assume pending: "onSuccessfulContinue c = Some k"
  show "onSuccessfulContinue (snd (GenericMerge invoke os commandType ''abort'' c)) = None
           \<longleftrightarrow> respond os (calls c)
                 (call.RunSkipEditorCommand (''git '' @ commandType @ '' --abort'')) = None"
  proof (cases "respond os (calls c)
                 (call.RunSkipEditorCommand (''git '' @ commandType @ '' --abort''))")
    case None
    then show ?thesis
      by (simp add: GenericMerge_abort)
  next
    case (Some msg)
    from GenericMerge_failed [of os c commandType "''abort''" msg invoke] Some pending
    show ?thesis by simp
  qed
next
  assume quiet: "respond os (calls c)
        (call.RunSkipEditorCommand (''git '' @ commandType @ '' --'' @ command)) = None
      \<and> command \<noteq> ''abort''
      \<and> \<not> (commandType = ''rebase'' \<and> command = ''continue'' \<and> onSuccessfulContinue c \<noteq> None)"
  then have run: "GenericMerge invoke os commandType command c =
        (None,
         c\<lparr>calls := calls c @ [call.RunSkipEditorCommand (''git '' @ commandType @ '' --'' @ command)]\<rparr>)"
    by (auto simp: GenericMerge_def RunSkipEditorCommand_def perform_def)
  show "GenericMerge invoke os commandType command c =
        (None,
         c\<lparr>calls := calls c @ [call.RunSkipEditorCommand (''git '' @ commandType @ '' --'' @ command)]\<rparr>)"
    by (rule run)
  show "onSuccessfulContinue (snd (GenericMerge invoke os commandType command c))
          = onSuccessfulContinue c"
    by (simp add: run)
next
  assume a: "respond os (calls c) (call.RunSkipEditorCommand ''git rebase --continue'') = None
      \<and> onSuccessfulContinue c = Some k"
  show "GenericMerge invoke os ''rebase'' ''continue'' c =
        invoke k (c\<lparr>calls := calls c @ [call.RunSkipEditorCommand ''git rebase --continue''],
                    onSuccessfulContinue := None\<rparr>)"
    by (rule GenericMerge_continue [OF conjunct1 [OF a] conjunct2 [OF a]])
qed

theorem GenericMerge_error_leaves_continuation_witness:
  "respond (NewDummyOSCommand\<lparr>respond := (\<lambda>history cl.
          if cl = call.RunSkipEditorCommand ''git rebase --abort'' then Some ''fatal'' else None)\<rparr>)
       (calls (NewDummyGitCommand\<lparr>onSuccessfulContinue := Some 7\<rparr>))
       (call.RunSkipEditorCommand (''git '' @ ''rebase'' @ '' --'' @ ''abort'')) = Some ''fatal''
   \<and> GenericMerge (\<lambda>k c. (None, c))
       (NewDummyOSCommand\<lparr>respond := (\<lambda>history cl.
          if cl = call.RunSkipEditorCommand ''git rebase --abort'' then Some ''fatal'' else None)\<rparr>)
       ''rebase'' ''abort'' (NewDummyGitCommand\<lparr>onSuccessfulContinue := Some 7\<rparr>)
     = (Some (Error (ExitError ''fatal'')),
        NewDummyGitCommand\<lparr>calls := [call.RunSkipEditorCommand ''git rebase --abort''],
                            onSuccessfulContinue := Some 7\<rparr>)
   \<and> GenericMerge (\<lambda>k c. (None, c)) NewDummyOSCommand ''rebase'' ''skip''
       (NewDummyGitCommand\<lparr>onSuccessfulContinue := Some 7\<rparr>)
     = (None,
        NewDummyGitCommand\<lparr>calls := [call.RunSkipEditorCommand ''git rebase --skip''],
                            onSuccessfulContinue := Some 7\<rparr>)"
proof -
  let ?os = "NewDummyOSCommand\<lparr>respond := (\<lambda>history cl.
          if cl = call.RunSkipEditorCommand ''git rebase --abort'' then Some ''fatal'' else None)\<rparr>"
  let ?c = "NewDummyGitCommand\<lparr>onSuccessfulContinue := Some 7\<rparr>"
  have failed: "respond ?os (calls ?c)
       (call.RunSkipEditorCommand (''git '' @ ''rebase'' @ '' --'' @ ''abort'')) = Some ''fatal''"
    by simp
  from GenericMerge_error_leaves_continuation
         [of ?os ?c "''rebase''" "''abort''" "''fatal''" "\<lambda>k c. (None, c)", THEN conjunct1,
          THEN mp, OF failed, THEN conjunct1]
  have aborted: "GenericMerge (\<lambda>k c. (None, c)) ?os ''rebase'' ''abort'' ?c
     = (Some (Error (ExitError ''fatal'')),
        NewDummyGitCommand\<lparr>calls := [call.RunSkipEditorCommand ''git rebase --abort''],
                            onSuccessfulContinue := Some 7\<rparr>)"
    by (simp add: NewDummyGitCommand_def)
  have quiet: "respond NewDummyOSCommand (calls ?c)
        (call.RunSkipEditorCommand (''git '' @ ''rebase'' @ '' --'' @ ''skip'')) = None
      \<and> ''skip'' \<noteq> ''abort''
      \<and> \<not> (''rebase'' = ''rebase'' \<and> ''skip'' = ''continue'' \<and> onSuccessfulContinue ?c \<noteq> None)"
    by (simp add: NewDummyOSCommand_def)
  from GenericMerge_error_leaves_continuation
         [of NewDummyOSCommand ?c "''rebase''" "''skip''" "''fatal''" "\<lambda>k c. (None, c)",
          THEN conjunct2, THEN conjunct2, THEN conjunct1, THEN mp, OF quiet, THEN conjunct1]
  have "GenericMerge (\<lambda>k c. (None, c)) NewDummyOSCommand ''rebase'' ''skip'' ?c
     = (None,
        NewDummyGitCommand\<lparr>calls := [call.RunSkipEditorCommand ''git rebase --skip''],
                            onSuccessfulContinue := Some 7\<rparr>)"
    by (simp add: NewDummyGitCommand_def)
  with failed aborted show ?thesis by blast
qed

section \<open>Properties of the compound operation\<close>

lemma usingGpg_calls: "usingGpg (c\<lparr>calls := xs\<rparr>) = usingGpg c"
  by (simp add: usingGpg_def)

lemma BeginInteractiveRebaseForCommit_started:
  assumes "BeginInteractiveRebaseForCommit os commits commitIndex c = (None, c1)"
  shows "\<not> usingGpg c \<and> commitIndex \<le> int (length commits) - 1
       \<and> (\<exists>todo sha. GenerateGenericRebaseTodo commits commitIndex ''edit'' = Inr (todo, sha)
            \<and> c1 = c\<lparr>calls := calls c
                  @ [RunPreparedCommand (PrepareInteractiveRebaseCommand os sha todo True)]\<rparr>)"
  using assms
  by (auto simp: BeginInteractiveRebaseForCommit_def perform_def
           split: if_splits sum.splits prod.splits option.splits)






lemma DiscardOldFileChanges_amend_run:
  assumes "\<not> usingGpg c"
      and "respond os (calls c) (RunCommand ''git commit --amend --no-edit --allow-empty'') = None"
      and "respond os (calls c @ [RunCommand ''git commit --amend --no-edit --allow-empty''])
             (call.RunSkipEditorCommand ''git rebase --continue'') = None"
  shows "DiscardOldFileChanges_amend invoke os c =
           (case onSuccessfulContinue c of
              None \<Rightarrow>
                (None, c\<lparr>calls := calls c @ [RunCommand ''git commit --amend --no-edit --allow-empty'',
                                             call.RunSkipEditorCommand ''git rebase --continue'']\<rparr>)
            | Some k \<Rightarrow>
                invoke k (c\<lparr>calls := calls c @ [RunCommand ''git commit --amend --no-edit --allow-empty'',
                                                call.RunSkipEditorCommand ''git rebase --continue''],
                            onSuccessfulContinue := None\<rparr>))"
  using assms
  by (simp add: DiscardOldFileChanges_amend_def AmendHead_def perform_def GenericMerge_def
        RunSkipEditorCommand_def split: option.splits)

text \<open>
  Claim C8. Let the rewrite be started, \<open>c1\<close> the state then and \<open>h\<close> its call history.
  When the probe \<^verbatim>\<open>git cat-file -e\<close> fails (the file is not in the parent) and what follows
  succeeds, the calls after the probe are four, in this order: the removal of the file,
  \<^verbatim>\<open>git add\<close> of it, the amend, \<^verbatim>\<open>git rebase --continue\<close>; no checkout is made. (Counted
  from the start of the rewrite, four commands are run, the probe first, and one path is
  removed.) When the
  probe succeeds, the one call between probe and amend is the checkout of the file from
  \<^verbatim>\<open>HEAD^\<close>. A continuation pending at the end is then run by \<^verbatim>\<open>GenericMerge\<close>, on the
  state with exactly these calls made.
\<close>

theorem DiscardOldFileChanges_calls:
  assumes "BeginInteractiveRebaseForCommit os commits commitIndex c = (None, c1)"
  shows "let probe = RunCommand (''git cat-file -e HEAD^:'' @ fileName);
             removal = Remove fileName;
             stage = RunCommand (''git add '' @ Quote os fileName);
             checkout = RunCommand (''git checkout '' @ ''HEAD^'' @ '' '' @ fileName);
             amend = RunCommand ''git commit --amend --no-edit --allow-empty'';
             resume = call.RunSkipEditorCommand ''git rebase --continue'';
             h = calls c1
         in (respond os h probe \<noteq> None
             \<and> respond os (h @ [probe]) removal = None
             \<and> respond os (h @ [probe, removal]) stage = None
             \<and> respond os (h @ [probe, removal, stage]) amend = None
             \<and> respond os (h @ [probe, removal, stage, amend]) resume = None
             \<longrightarrow>
             DiscardOldFileChanges invoke os commits commitIndex fileName c =
               (case onSuccessfulContinue c of
                  None \<Rightarrow> (None, c1\<lparr>calls := h @ [probe, removal, stage, amend, resume]\<rparr>)
                | Some k \<Rightarrow>
                    invoke k (c1\<lparr>calls := h @ [probe, removal, stage, amend, resume],
                                 onSuccessfulContinue := None\<rparr>)))
          \<and> (respond os h probe = None
             \<and> respond os (h @ [probe]) checkout = None
             \<and> respond os (h @ [probe, checkout]) amend = None
             \<and> respond os (h @ [probe, checkout, amend]) resume = None
             \<longrightarrow>
             DiscardOldFileChanges invoke os commits commitIndex fileName c =
               (case onSuccessfulContinue c of
                  None \<Rightarrow> (None, c1\<lparr>calls := h @ [probe, checkout, amend, resume]\<rparr>)
                | Some k \<Rightarrow>
                    invoke k (c1\<lparr>calls := h @ [probe, checkout, amend, resume],
                                 onSuccessfulContinue := None\<rparr>)))"
proof -
  define probe where "probe = RunCommand (''git cat-file -e HEAD^:'' @ fileName)"
  define removal where "removal = Remove fileName"
  define stage where "stage = RunCommand (''git add '' @ Quote os fileName)"
  define checkout where "checkout = RunCommand (''git checkout '' @ ''HEAD^'' @ '' '' @ fileName)"
  define amend where "amend = RunCommand ''git commit --amend --no-edit --allow-empty''"
  define resume where "resume = call.RunSkipEditorCommand ''git rebase --continue''"
  define h where "h = calls c1"
  from BeginInteractiveRebaseForCommit_started [OF assms]
  obtain xs where plain: "\<not> usingGpg c" and c1: "c1 = c\<lparr>calls := xs\<rparr>"
    by blast
  have gpg: "\<not> usingGpg (c1\<lparr>calls := ys\<rparr>)" for ys
    using plain by (simp add: c1 usingGpg_calls)
  have pending: "onSuccessfulContinue (c1\<lparr>calls := ys\<rparr>) = onSuccessfulContinue c" for ys
    by (simp add: c1)
  have absent: "DiscardOldFileChanges invoke os commits commitIndex fileName c =
               (case onSuccessfulContinue c of
                  None \<Rightarrow> (None, c1\<lparr>calls := h @ [probe, removal, stage, amend, resume]\<rparr>)
                | Some k \<Rightarrow>
                    invoke k (c1\<lparr>calls := h @ [probe, removal, stage, amend, resume],
                                 onSuccessfulContinue := None\<rparr>))"
    if a: "respond os h probe \<noteq> None
             \<and> respond os (h @ [probe]) removal = None
             \<and> respond os (h @ [probe, removal]) stage = None
             \<and> respond os (h @ [probe, removal, stage]) amend = None
             \<and> respond os (h @ [probe, removal, stage, amend]) resume = None"
  proof -
    from a obtain msg where p: "respond os (calls c1) probe = Some msg"
      by (auto simp: h_def)
    let ?c4 = "c1\<lparr>calls := h @ [probe, removal, stage]\<rparr>"
    have tail: "DiscardOldFileChanges_amend invoke os ?c4 =
           (case onSuccessfulContinue c of
              None \<Rightarrow> (None, c1\<lparr>calls := h @ [probe, removal, stage, amend, resume]\<rparr>)
            | Some k \<Rightarrow>
                invoke k (c1\<lparr>calls := h @ [probe, removal, stage, amend, resume],
                             onSuccessfulContinue := None\<rparr>))"
      using DiscardOldFileChanges_amend_run [of ?c4 os invoke] a gpg pending
      by (simp add: amend_def resume_def cong: option.case_cong)
    show ?thesis
      unfolding DiscardOldFileChanges_def assms
      using p a tail
      by (simp add: perform_def StageFile_def probe_def removal_def stage_def h_def)
  qed
  have present: "DiscardOldFileChanges invoke os commits commitIndex fileName c =
               (case onSuccessfulContinue c of
                  None \<Rightarrow> (None, c1\<lparr>calls := h @ [probe, checkout, amend, resume]\<rparr>)
                | Some k \<Rightarrow>
                    invoke k (c1\<lparr>calls := h @ [probe, checkout, amend, resume],
                                 onSuccessfulContinue := None\<rparr>))"
    if a: "respond os h probe = None
             \<and> respond os (h @ [probe]) checkout = None
             \<and> respond os (h @ [probe, checkout]) amend = None
             \<and> respond os (h @ [probe, checkout, amend]) resume = None"
  proof -
    let ?c3 = "c1\<lparr>calls := h @ [probe, checkout]\<rparr>"
    have tail: "DiscardOldFileChanges_amend invoke os ?c3 =
           (case onSuccessfulContinue c of
              None \<Rightarrow> (None, c1\<lparr>calls := h @ [probe, checkout, amend, resume]\<rparr>)
            | Some k \<Rightarrow>
                invoke k (c1\<lparr>calls := h @ [probe, checkout, amend, resume],
                             onSuccessfulContinue := None\<rparr>))"
      using DiscardOldFileChanges_amend_run [of ?c3 os invoke] a gpg pending
      by (simp add: amend_def resume_def cong: option.case_cong)
    show ?thesis
      unfolding DiscardOldFileChanges_def assms
      using a tail
      by (simp add: perform_def CheckoutFile_def probe_def checkout_def h_def)
  qed
  from absent present show ?thesis
    unfolding Let_def probe_def [symmetric] removal_def [symmetric] stage_def [symmetric]
      checkout_def [symmetric] amend_def [symmetric] resume_def [symmetric] h_def [symmetric]
    by blast
qed

theorem DiscardOldFileChanges_calls_witness:
  "DiscardOldFileChanges (\<lambda>k c. (None, c))
      (NewDummyOSCommand\<lparr>respond := (\<lambda>history cl.
         if cl = RunCommand ''git cat-file -e HEAD^:test999.txt'' then Some ''fatal'' else None)\<rparr>)
      [\<lparr>Sha = ''123456'', Name = ''commit''\<rparr>, \<lparr>Sha = ''abcdef'', Name = ''commit2''\<rparr>] 0
      ''test999.txt'' NewDummyGitCommand
     = (None, NewDummyGitCommand\<lparr>calls :=
          [RunPreparedCommand (PrepareInteractiveRebaseCommand NewDummyOSCommand ''abcdef''
             ''edit 123456 commit\<newline>'' True),
           RunCommand ''git cat-file -e HEAD^:test999.txt'',
           Remove ''test999.txt'',
           RunCommand ''git add test999.txt'',
           RunCommand ''git commit --amend --no-edit --allow-empty'',
           call.RunSkipEditorCommand ''git rebase --continue'']\<rparr>)
   \<and> DiscardOldFileChanges (\<lambda>k c. (None, c)) NewDummyOSCommand
      [\<lparr>Sha = ''123456'', Name = ''commit''\<rparr>, \<lparr>Sha = ''abcdef'', Name = ''commit2''\<rparr>] 0
      ''test999.txt'' NewDummyGitCommand
     = (None, NewDummyGitCommand\<lparr>calls :=
          [RunPreparedCommand (PrepareInteractiveRebaseCommand NewDummyOSCommand ''abcdef''
             ''edit 123456 commit\<newline>'' True),
           RunCommand ''git cat-file -e HEAD^:test999.txt'',
           RunCommand ''git checkout HEAD^ test999.txt'',
           RunCommand ''git commit --amend --no-edit --allow-empty'',
           call.RunSkipEditorCommand ''git rebase --continue'']\<rparr>)"
proof -
  let ?absent = "NewDummyOSCommand\<lparr>respond := (\<lambda>history cl.
         if cl = RunCommand ''git cat-file -e HEAD^:test999.txt'' then Some ''fatal'' else None)\<rparr>"
  let ?cs = "[\<lparr>Sha = ''123456'', Name = ''commit''\<rparr>, \<lparr>Sha = ''abcdef'', Name = ''commit2''\<rparr>]"
  let ?begin = "RunPreparedCommand (PrepareInteractiveRebaseCommand NewDummyOSCommand ''abcdef''
             ''edit 123456 commit\<newline>'' True)"
  let ?c1 = "NewDummyGitCommand\<lparr>calls := [?begin]\<rparr>"
  have plain: "\<not> usingGpg NewDummyGitCommand"
    by (simp add: usingGpg_def ToLower_def NewDummyGitCommand_def)
  have todo: "GenerateGenericRebaseTodo ?cs 0 ''edit'' = Inr (''edit 123456 commit\<newline>'', ''abcdef'')"
    by (simp add: GenerateGenericRebaseTodo_def add64_def sliceTo_def index_def enumerate_eq_zip
          upt_rec)
  have started_absent: "BeginInteractiveRebaseForCommit ?absent ?cs 0 NewDummyGitCommand = (None, ?c1)"
    using plain
    by (simp add: BeginInteractiveRebaseForCommit_def todo perform_def
          PrepareInteractiveRebaseCommand_def NewDummyOSCommand_def NewDummyGitCommand_def)
  have started: "BeginInteractiveRebaseForCommit NewDummyOSCommand ?cs 0 NewDummyGitCommand = (None, ?c1)"
    using plain
    by (simp add: BeginInteractiveRebaseForCommit_def todo perform_def
          PrepareInteractiveRebaseCommand_def NewDummyOSCommand_def NewDummyGitCommand_def)
  have idle: "onSuccessfulContinue NewDummyGitCommand = None"
    by (simp add: NewDummyGitCommand_def)
  from DiscardOldFileChanges_calls [OF started_absent, of "''test999.txt''" "\<lambda>k c. (None, c)",
         unfolded Let_def, THEN conjunct1]
  have "DiscardOldFileChanges (\<lambda>k c. (None, c)) ?absent ?cs 0 ''test999.txt'' NewDummyGitCommand
     = (None, NewDummyGitCommand\<lparr>calls :=
          [?begin,
           RunCommand ''git cat-file -e HEAD^:test999.txt'',
           Remove ''test999.txt'',
           RunCommand ''git add test999.txt'',
           RunCommand ''git commit --amend --no-edit --allow-empty'',
           call.RunSkipEditorCommand ''git rebase --continue'']\<rparr>)"
    by (simp add: idle NewDummyOSCommand_def)
  moreover
  from DiscardOldFileChanges_calls [OF started, of "''test999.txt''" "\<lambda>k c. (None, c)",
         unfolded Let_def, THEN conjunct2]
  have "DiscardOldFileChanges (\<lambda>k c. (None, c)) NewDummyOSCommand ?cs 0 ''test999.txt''
          NewDummyGitCommand
     = (None, NewDummyGitCommand\<lparr>calls :=
          [?begin,
           RunCommand ''git cat-file -e HEAD^:test999.txt'',
           RunCommand ''git checkout HEAD^ test999.txt'',
           RunCommand ''git commit --amend --no-edit --allow-empty'',
           call.RunSkipEditorCommand ''git rebase --continue'']\<rparr>)"
    by (simp add: idle NewDummyOSCommand_def)
  ultimately show ?thesis
    by blast
qed

end
